theory Spec2Isabelle
  imports Main
begin

section \<open>Keyboard navigation of a chart: the class KeyboardNavigation\<close>

text \<open>
  The class keeps an ordered list of navigation handlers (\<open>modules\<close>), the index of the
  current one (\<open>currentModuleIx\<close>) and a handful of flags that tell why focus is moving.
  Every method is embedded as a function on the record \<open>kn\<close> of the instance's fields.
  What a method does to the outside world (a call of a handler's \<open>init\<close>, \<open>terminate\<close> or
  \<open>run\<close>, a call of \<open>focus()\<close> on an element, \<open>preventDefault\<close>) is appended to the field
  \<open>trace\<close>, in the order of the calls. An entry \<open>Call_move d\<close> marks each time \<open>move\<close> is
  entered, so that the depth of its recursion can be read off the trace.

  A JavaScript flag that is \<open>undefined\<close>, deleted or \<open>false\<close> is \<open>False\<close>: the code only
  tests the flags for truth. A call of a method that the object does not have raises
  \<open>TypeError\<close>; a method that can raise returns \<open>Inl TypeError\<close> together with the fields as
  they were when the exception left it. \<open>move\<close> calls itself, so it is a
  \<^theory_text>\<open>partial_function\<close> and not returning is the value \<open>None\<close>.

  A call of \<open>focus()\<close> on an element is an entry of the trace. The focus event that the
  browser delivers for it is a call of the listener \<open>onFocus\<close> or \<open>exitAnchor_onFocus\<close>, which
  are functions of their own: the event is the next step of the environment. While
  \<open>exiting\<close> or \<open>tabbingInBackwards\<close> is set, which is when the class itself calls \<open>focus()\<close>,
  these listeners only clear \<open>exiting\<close> (lemma \<open>listeners_during_own_focus\<close>).
\<close>

subsection \<open>Handlers, elements and the fields of the instance\<close>

datatype error = TypeError

text \<open>
  A KeyboardNavigationHandler as the class sees it: an object (told apart by \<open>mid\<close>) whose
  \<open>validate\<close>, \<open>init\<close> and \<open>terminate\<close> are optional. \<open>validate = None\<close> is a handler without
  the function, \<open>Some b\<close> one whose \<open>validate()\<close> returns \<open>b\<close>. What \<open>run\<close> returns for a key
  is given with the key event.
\<close>

record handler =
  mid :: nat
  validate :: "bool option"
  has_init :: bool
  has_terminate :: bool

text \<open>
  Modelled from the spec: the response table of KeyboardNavigationHandler
  (\<open>response.success\<close>, \<open>response.prev\<close>, \<open>response.next\<close>) is declared in a file that is not
  among the sources. The spec names the codes Success, MovePrev, MoveNext and NoResponse;
  \<open>Unrecognized n\<close> is any other number a handler's \<open>run\<close> returns.
\<close>

datatype response = Success | MovePrev | MoveNext | NoResponse | Unrecognized int

datatype effect =
    Call_move int
  | Terminate handler "int option"
  | Init handler int
  | Run handler
  | RemoveFocusBorder
  | Focus_exitAnchor
  | Focus_tabindexContainer
  | PreventDefault
  | StopPropagation

text \<open>
  DOM elements are objects that the class shares with the document, so they live in a
  store: the field \<open>elements\<close> maps the address of an element to what the class reads and
  writes of it (whether it has a parent node, and its attributes), and \<open>exitAnchor\<close> holds an
  address.
\<close>

record element =
  parentNode :: bool
  attributes :: "(string \<times> string) list"

datatype tab_container = RenderTo | Container

datatype target = On_tabindexContainer | On_document | On_renderTo | On_element nat

text \<open>
  Modelled from the spec: the class EventProvider is not among the sources. \<open>addEvent\<close>
  registers a subscription, \<open>removeAddedEvents\<close> releases every subscription of the
  instance.
\<close>

type_synonym eventProvider = "(target \<times> string) list"

definition addEvent :: "target \<Rightarrow> string \<Rightarrow> eventProvider \<Rightarrow> eventProvider" where
  "addEvent el type ep = ep @ [(el, type)]"


record kn =
  modules :: "handler list"
  currentModuleIx :: int
  exitAnchor :: "nat option"
  elements :: "nat \<Rightarrow> element"
  exiting :: bool
  isClickingChart :: bool
  keyboardReset :: bool
  pointerIsOverChart :: bool
  tabbingInBackwards :: bool
  tabindexContainer :: tab_container
  renderTo_tabindex :: "string option"
  container_tabindex :: "string option"
  focusElement :: bool
  eventProvider :: eventProvider
  trace :: "effect list"

type_synonym 'a result = "(error + 'a) \<times> kn"

definition emit :: "effect \<Rightarrow> kn \<Rightarrow> kn" where
  "emit e s = s\<lparr>trace := trace s @ [e]\<rparr>"

text \<open>\<open>this.modules[i]\<close>: \<open>undefined\<close> outside the array.\<close>

definition module_at :: "handler list \<Rightarrow> int \<Rightarrow> handler option" where
  "module_at ms i = (if 0 \<le> i \<and> i < int (length ms) then Some (ms ! nat i) else None)"

subsection \<open>move, prev and next\<close>

partial_function (option) move :: "int \<Rightarrow> kn \<Rightarrow> bool result option" where
  "move direction s0 =
    (let s = emit (Call_move direction) s0;
         s1 = (case module_at (modules s) (currentModuleIx s) of
                 Some curModule \<Rightarrow>
                   if has_terminate curModule
                   then emit (Terminate curModule (Some direction)) s else s
               | None \<Rightarrow> s);
         s2 = (if focusElement s1 then emit RemoveFocusBorder s1 else s1);
         s3 = s2\<lparr>currentModuleIx := currentModuleIx s2 + direction\<rparr>;
         no_module =
           (let s4 = s3\<lparr>currentModuleIx := 0, exiting := True\<rparr>
            in if direction > 0
               then (case exitAnchor s4 of
                       None \<Rightarrow> (Inl TypeError, s4)
                     | Some a \<Rightarrow> (Inr False, emit Focus_exitAnchor s4))
               else (Inr False, emit Focus_tabindexContainer s4))
     in case module_at (modules s3) (currentModuleIx s3) of
          Some newModule \<Rightarrow>
            if validate newModule = Some False then move direction s3
            else if has_init newModule
            then Some (Inr True, emit (Init newModule direction) s3)
            else Some no_module
        | None \<Rightarrow> Some no_module)"

declare move.simps [code]

definition prev :: "kn \<Rightarrow> bool result option" where
  "prev s = move (- 1) s"

definition "next" :: "kn \<Rightarrow> bool result option" where
  "next s = move 1 s"


subsection \<open>The listeners of the container and of the document\<close>

text \<open>
  \<open>onFocus\<close>: \<open>focusComesFromChart\<close> is the test
  \<open>e.relatedTarget && chart.container.contains(e.relatedTarget)\<close> on the event.
  \<open>this.modules[0].init(1)\<close> is not guarded by a test for \<open>init\<close>.
\<close>

definition onFocus :: "bool \<Rightarrow> kn \<Rightarrow> unit result" where
  "onFocus focusComesFromChart s =
    (if \<not> exiting s \<and> \<not> tabbingInBackwards s \<and> \<not> isClickingChart s \<and>
        \<not> focusComesFromChart \<and> module_at (modules s) 0 \<noteq> None
     then (case module_at (modules s) 0 of
             Some m \<Rightarrow>
               if has_init m then (Inr (), (emit (Init m 1) s)\<lparr>exiting := False\<rparr>)
               else (Inl TypeError, s)
           | None \<Rightarrow> (Inr (), s\<lparr>exiting := False\<rparr>))
     else (Inr (), s\<lparr>exiting := False\<rparr>))"

text \<open>\<open>this.currentModuleIx || 0\<close> is the index itself: the field holds an integer.\<close>

definition onMouseUp :: "kn \<Rightarrow> kn" where
  "onMouseUp s0 =
    (let s = s0\<lparr>isClickingChart := False\<rparr>
     in if \<not> keyboardReset s \<and> \<not> pointerIsOverChart s
        then
          (let s1 = (case module_at (modules s) (currentModuleIx s) of
                       Some curMod \<Rightarrow>
                         if has_terminate curMod then emit (Terminate curMod None) s else s
                     | None \<Rightarrow> s);
               s2 = (if focusElement s1 then emit RemoveFocusBorder s1 else s1)
           in s2\<lparr>currentModuleIx := 0, keyboardReset := True\<rparr>)
        else s)"

definition onMouseDown :: "kn \<Rightarrow> kn" where
  "onMouseDown s = s\<lparr>isClickingChart := True\<rparr>"

definition onMouseOver :: "kn \<Rightarrow> kn" where
  "onMouseOver s = s\<lparr>pointerIsOverChart := True\<rparr>"

definition onMouseOut :: "kn \<Rightarrow> kn" where
  "onMouseOut s = s\<lparr>pointerIsOverChart := False\<rparr>"

text \<open>
  \<open>onKeydown\<close>: \<open>r\<close> is what \<open>curNavModule.run(e)\<close> returns for the event. The result of
  \<open>prev()\<close> or \<open>next()\<close> becomes \<open>preventDefault\<close>.
\<close>

definition suppress :: "bool \<Rightarrow> kn \<Rightarrow> kn" where
  "suppress preventDefault s =
    (if preventDefault then emit StopPropagation (emit PreventDefault s) else s)"

definition onKeydown :: "response \<Rightarrow> kn \<Rightarrow> unit result option" where
  "onKeydown r s0 =
    (let curNavModule =
           (if modules s0 = [] then None else module_at (modules s0) (currentModuleIx s0));
         s = s0\<lparr>keyboardReset := False, exiting := False\<rparr>
     in case curNavModule of
          Some m \<Rightarrow>
            (let s1 = emit (Run m) s
             in case r of
                  Success \<Rightarrow> Some (Inr (), suppress True s1)
                | MovePrev \<Rightarrow>
                    (case prev s1 of
                       None \<Rightarrow> None
                     | Some (Inl e, s2) \<Rightarrow> Some (Inl e, s2)
                     | Some (Inr preventDefault, s2) \<Rightarrow>
                         Some (Inr (), suppress preventDefault s2))
                | MoveNext \<Rightarrow>
                    (case next s1 of
                       None \<Rightarrow> None
                     | Some (Inl e, s2) \<Rightarrow> Some (Inl e, s2)
                     | Some (Inr preventDefault, s2) \<Rightarrow>
                         Some (Inr (), suppress preventDefault s2))
                | NoResponse \<Rightarrow> Some (Inr (), s1)
                | Unrecognized n \<Rightarrow> Some (Inr (), s1))
        | None \<Rightarrow> Some (Inr (), s))"

subsection \<open>The exit anchor\<close>

definition setAttribute :: "nat \<Rightarrow> string \<Rightarrow> string \<Rightarrow> kn \<Rightarrow> kn" where
  "setAttribute el k v s =
    s\<lparr>elements := (elements s)
         (el := (elements s el)
            \<lparr>attributes := (k, v) # filter (\<lambda>kv. fst kv \<noteq> k) (attributes (elements s el))\<rparr>)\<rparr>"

text \<open>\<open>removeExitAnchor\<close>: \<open>removeChild\<close> takes the parent node from the element itself.\<close>

definition removeExitAnchor :: "kn \<Rightarrow> kn" where
  "removeExitAnchor s =
    (case exitAnchor s of
       Some a \<Rightarrow>
         if parentNode (elements s a)
         then s\<lparr>elements := (elements s)(a := (elements s a)\<lparr>parentNode := False\<rparr>),
                exitAnchor := None\<rparr>
         else s
     | None \<Rightarrow> s)"

text \<open>
  The listener that \<open>addExitAnchorEventsToEl\<close> puts on the exit anchor.
  \<open>curModule.init(-1)\<close> is not guarded by a test for \<open>init\<close>; the result of \<open>prev()\<close> is
  dropped.
\<close>

definition exitAnchor_onFocus :: "bool \<Rightarrow> kn \<Rightarrow> unit result option" where
  "exitAnchor_onFocus focusComesFromChart s =
    (let comingInBackwards = \<not> (focusComesFromChart \<or> exiting s)
     in if comingInBackwards
        then
          (let s1 = s\<lparr>tabbingInBackwards := True\<rparr>;
               s2 = emit Focus_tabindexContainer s1;
               s3 = s2\<lparr>tabbingInBackwards := False\<rparr>;
               s4 = emit PreventDefault s3
           in if modules s4 \<noteq> []
              then
                (let s5 = s4\<lparr>currentModuleIx := int (length (modules s4)) - 1\<rparr>
                 in case module_at (modules s5) (currentModuleIx s5) of
                      Some curModule \<Rightarrow>
                        if validate curModule = Some False
                        then (case prev s5 of
                                None \<Rightarrow> None
                              | Some (Inl e, s6) \<Rightarrow> Some (Inl e, s6)
                              | Some (Inr b, s6) \<Rightarrow> Some (Inr (), s6))
                        else if has_init curModule
                        then Some (Inr (), emit (Init curModule (- 1)) s5)
                        else Some (Inl TypeError, s5)
                    | None \<Rightarrow> Some (Inr (), s5))
              else Some (Inr (), s4))
        else Some (Inr (), s\<lparr>exiting := False\<rparr>))"

definition addExitAnchorEventsToEl :: "nat \<Rightarrow> kn \<Rightarrow> kn" where
  "addExitAnchorEventsToEl el s =
    s\<lparr>eventProvider := addEvent (On_element el) ''focus'' (eventProvider s)\<rparr>"

definition getAttribute_tabindex :: "kn \<Rightarrow> string option" where
  "getAttribute_tabindex s =
    (case tabindexContainer s of
       RenderTo \<Rightarrow> renderTo_tabindex s
     | Container \<Rightarrow> container_tabindex s)"

text \<open>
  \<open>makeElementAnExitAnchor\<close> sets the attributes of the element and adds the listener.
  \<open>getAttribute('tabindex') || 0\<close> is \<open>0\<close> for a missing or empty attribute.
\<close>

definition makeElementAnExitAnchor :: "nat \<Rightarrow> kn \<Rightarrow> kn" where
  "makeElementAnExitAnchor el s =
    (let chartTabindex =
           (case getAttribute_tabindex s of
              None \<Rightarrow> ''0''
            | Some v \<Rightarrow> if v = [] then ''0'' else v);
         s1 = setAttribute el ''class'' ''highcharts-exit-anchor'' s;
         s2 = setAttribute el ''tabindex'' chartTabindex s1;
         s3 = setAttribute el ''aria-hidden'' ''false'' s2
     in addExitAnchorEventsToEl el s3)"

text \<open>
  \<open>createExitAnchor\<close>: \<open>n\<close> is the address of the \<open>div\<close> that \<open>doc.createElement\<close> returns, a
  new element without parent; \<open>appendChild\<close> gives it one.
\<close>

definition createExitAnchor :: "nat \<Rightarrow> kn \<Rightarrow> kn" where
  "createExitAnchor n s =
    (let s1 = s\<lparr>elements := (elements s)(n := \<lparr>parentNode = False, attributes = []\<rparr>),
                  exitAnchor := Some n\<rparr>;
         s2 = s1\<lparr>elements := (elements s1)(n := (elements s1 n)\<lparr>parentNode := True\<rparr>)\<rparr>
     in makeElementAnExitAnchor n s2)"

text \<open>
  \<open>updateExitAnchor\<close>: \<open>endMarker\<close> is the address of the element that
  \<open>getElement(endMarkerId)\<close> finds, looked up before the old anchor is removed. What
  \<open>getElementById\<close> finds is in the document, so at the lookup the element has a parent
  node. When it is the element that already is the exit anchor, \<open>removeExitAnchor\<close> takes
  that very element out of the document and it stays out.
\<close>

definition updateExitAnchor :: "nat option \<Rightarrow> nat \<Rightarrow> kn \<Rightarrow> kn" where
  "updateExitAnchor endMarker n s =
    (let s0 = (case endMarker of
                 Some marker \<Rightarrow>
                   s\<lparr>elements := (elements s)(marker := (elements s marker)\<lparr>parentNode := True\<rparr>)\<rparr>
               | None \<Rightarrow> s);
         s1 = removeExitAnchor s0
     in case endMarker of
          Some marker \<Rightarrow> (makeElementAnExitAnchor marker s1)\<lparr>exitAnchor := Some marker\<rparr>
        | None \<Rightarrow> createExitAnchor n s1)"

subsection \<open>update, init and destroy\<close>

text \<open>
  \<open>keyboardOptions\<close> is \<open>None\<close> when the chart's options have no
  \<open>accessibility.keyboardNavigation\<close>, else \<open>Some enabled\<close>, where \<open>enabled\<close> is \<open>None\<close> for an
  option that is not set.
\<close>

type_synonym keyboardOptions = "bool option option"

definition updateContainerTabindex :: "keyboardOptions \<Rightarrow> kn \<Rightarrow> kn" where
  "updateContainerTabindex keyboardOptions s =
    (let shouldHaveTabindex = (keyboardOptions \<noteq> Some (Some False));
         s1 = (if renderTo_tabindex s \<noteq> None
               then s\<lparr>container_tabindex := None, tabindexContainer := RenderTo\<rparr>
               else s\<lparr>tabindexContainer := Container\<rparr>);
         curTabindex = getAttribute_tabindex s1
     in if shouldHaveTabindex \<and> (curTabindex = None \<or> curTabindex = Some [])
        then (case tabindexContainer s1 of
                RenderTo \<Rightarrow> s1\<lparr>renderTo_tabindex := Some ''0''\<rparr>
              | Container \<Rightarrow> s1\<lparr>container_tabindex := Some ''0''\<rparr>)
        else if \<not> shouldHaveTabindex then s1\<lparr>container_tabindex := None\<rparr>
        else s1)"

text \<open>
  \<open>order.reduce\<close>: the handlers of the named components, in the order of the names.
  \<open>components\<close> maps a name to what the component's \<open>getKeyboardNavigation()\<close> returns; a
  name without a component raises \<open>TypeError\<close>.
\<close>

fun reduce_order :: "(string \<rightharpoonup> handler list) \<Rightarrow> string list \<Rightarrow> handler list \<Rightarrow> error + handler list" where
  "reduce_order components [] ms = Inr ms"
| "reduce_order components (componentName # order) ms =
    (case components componentName of
       None \<Rightarrow> Inl TypeError
     | Some navModules \<Rightarrow> reduce_order components order (ms @ navModules))"

definition update ::
  "keyboardOptions \<Rightarrow> (string \<rightharpoonup> handler list) \<Rightarrow> nat option \<Rightarrow> nat \<Rightarrow>
   string list option \<Rightarrow> kn \<Rightarrow> unit result" where
  "update keyboardOptions components endMarker n order s0 =
    (let s = updateContainerTabindex keyboardOptions s0
     in if keyboardOptions = Some (Some True) \<and> order \<noteq> None \<and> order \<noteq> Some []
        then (case reduce_order components (the order) [] of
                Inl e \<Rightarrow> (Inl e, s)
              | Inr ms \<Rightarrow> (Inr (), updateExitAnchor endMarker n (s\<lparr>modules := ms\<rparr>)))
        else (Inr (), removeExitAnchor (s\<lparr>modules := [], currentModuleIx := 0\<rparr>)))"



text \<open>
  \<open>init\<close>, called by the constructor on the fields as they are declared. The chart's
  options and the \<open>tabindex\<close> attributes of its two elements are given; the class has
  touched no other element yet. \<open>this.update()\<close> has no \<open>order\<close>, so it takes the branch
  that reads neither the components nor the document.
\<close>

definition init :: "keyboardOptions \<Rightarrow> string option \<Rightarrow> string option \<Rightarrow> kn" where
  "init keyboardOptions renderTo_attr container_attr =
    (let s0 = \<lparr>modules = [], currentModuleIx = 0, exitAnchor = None,
                elements = (\<lambda>a. \<lparr>parentNode = False, attributes = []\<rparr>), exiting = False,
                isClickingChart = False, keyboardReset = False, pointerIsOverChart = False,
                tabbingInBackwards = False, tabindexContainer = Container,
                renderTo_tabindex = renderTo_attr, container_tabindex = container_attr,
                focusElement = False, eventProvider = [], trace = []\<rparr>;
         s1 = snd (update keyboardOptions Map.empty None 0 None s0);
         ep = foldl (\<lambda>ep (el, type). addEvent el type ep) (eventProvider s1)
                [(On_tabindexContainer, ''keydown''), (On_tabindexContainer, ''focus''),
                 (On_document, ''mouseup''), (On_document, ''touchend''),
                 (On_renderTo, ''mousedown''), (On_renderTo, ''touchstart''),
                 (On_renderTo, ''mouseover''), (On_renderTo, ''mouseout'')]
     in s1\<lparr>eventProvider := ep\<rparr>)"

subsection \<open>Events and reachable states\<close>

text \<open>
  One event is one call of a listener or of a public method, with what the environment
  supplies to it. \<open>fire\<close> gives the fields after the call, also when the call raised;
  \<open>Chart_focusElement b\<close> is the chart setting or clearing its \<open>focusElement\<close>.
\<close>

datatype event =
    FocusEnter bool
  | KeyDown response
  | PointerUp
  | PointerDown
  | PointerOver
  | PointerOut
  | ExitAnchorFocus bool
  | Move int
  | Rebuild keyboardOptions "string \<rightharpoonup> handler list" "nat option" nat "string list option"
  | Chart_focusElement bool

fun fire :: "event \<Rightarrow> kn \<Rightarrow> kn option" where
  "fire (FocusEnter b) s = Some (snd (onFocus b s))"
| "fire (KeyDown r) s = map_option snd (onKeydown r s)"
| "fire PointerUp s = Some (onMouseUp s)"
| "fire PointerDown s = Some (onMouseDown s)"
| "fire PointerOver s = Some (onMouseOver s)"
| "fire PointerOut s = Some (onMouseOut s)"
| "fire (ExitAnchorFocus b) s = map_option snd (exitAnchor_onFocus b s)"
| "fire (Move d) s = map_option snd (move d s)"
| "fire (Rebuild opts components endMarker n order) s =
     Some (snd (update opts components endMarker n order s))"
| "fire (Chart_focusElement b) s = Some (s\<lparr>focusElement := b\<rparr>)"

fun run_events :: "event list \<Rightarrow> kn \<Rightarrow> kn option" where
  "run_events [] s = Some s"
| "run_events (ev # evs) s =
     (case fire ev s of None \<Rightarrow> None | Some s' \<Rightarrow> run_events evs s')"

text \<open>
  A handler is active when it has received \<open>init\<close> and no \<open>terminate\<close> after it. The set is
  read off the trace, from its start. The class calls \<open>terminate\<close> only on a handler that has
  the function; the statements about active handlers below are about handlers that all
  have it, so they do not depend on how a handler without \<open>terminate\<close> is counted.
\<close>

fun active_after :: "handler set \<Rightarrow> effect \<Rightarrow> handler set" where
  "active_after A (Init m d) = insert m A"
| "active_after A (Terminate m d) = A - {m}"
| "active_after A e = A"

definition active :: "effect list \<Rightarrow> handler set" where
  "active tr = foldl active_after {} tr"

subsection \<open>Notions used in the statements\<close>

text \<open>What a call added to the trace.\<close>

definition effects_since :: "kn \<Rightarrow> kn \<Rightarrow> effect list" where
  "effects_since s s' = drop (length (trace s)) (trace s')"

text \<open>
  The handlers that lie in the direction of motion from the current index, nearest
  first.
\<close>

definition ahead :: "int \<Rightarrow> kn \<Rightarrow> handler list" where
  "ahead direction s =
    (if direction > 0 then drop (nat (currentModuleIx s + 1)) (modules s)
     else rev (take (nat (currentModuleIx s)) (modules s)))"

definition invalid :: "handler \<Rightarrow> bool" where
  "invalid m = (validate m = Some False)"

text \<open>The activations of \<open>move\<close> in a list of effects.\<close>

definition move_calls :: "effect list \<Rightarrow> nat" where
  "move_calls es = length (filter (\<lambda>e. case e of Call_move d \<Rightarrow> True | _ \<Rightarrow> False) es)"

definition inits :: "effect list \<Rightarrow> (handler \<times> int) list" where
  "inits es = concat (map (\<lambda>e. case e of Init m d \<Rightarrow> [(m, d)] | _ \<Rightarrow> []) es)"

text \<open>
  The fields of \<open>move\<close> after it has terminated the current handler, removed the focus
  border and advanced the index, and what it returns when it finds no handler to
  initialise; both are read off the body of \<open>move\<close>.
\<close>

definition move_advance :: "int \<Rightarrow> kn \<Rightarrow> kn" where
  "move_advance direction s0 =
    (let s = emit (Call_move direction) s0;
         s1 = (case module_at (modules s) (currentModuleIx s) of
                 Some curModule \<Rightarrow>
                   if has_terminate curModule
                   then emit (Terminate curModule (Some direction)) s else s
               | None \<Rightarrow> s);
         s2 = (if focusElement s1 then emit RemoveFocusBorder s1 else s1)
     in s2\<lparr>currentModuleIx := currentModuleIx s2 + direction\<rparr>)"

definition move_no_module :: "int \<Rightarrow> kn \<Rightarrow> bool result" where
  "move_no_module direction s3 =
    (let s4 = s3\<lparr>currentModuleIx := 0, exiting := True\<rparr>
     in if direction > 0
        then (case exitAnchor s4 of
                None \<Rightarrow> (Inl TypeError, s4)
              | Some a \<Rightarrow> (Inr False, emit Focus_exitAnchor s4))
        else (Inr False, emit Focus_tabindexContainer s4))"


text \<open>The handler that \<open>onKeydown\<close> sends the event to.\<close>

definition curNavModule :: "kn \<Rightarrow> handler option" where
  "curNavModule s = (if modules s = [] then None else module_at (modules s) (currentModuleIx s))"

text \<open>The handlers whose \<open>run\<close> was called, in a list of effects.\<close>

definition runs :: "effect list \<Rightarrow> handler list" where
  "runs es = concat (map (\<lambda>e. case e of Run m \<Rightarrow> [m] | _ \<Rightarrow> []) es)"

text \<open>
  Focus arrives on the container from outside the chart, not during an exit, not while
  tabbing in backwards and not by a click.
\<close>

definition focus_entry :: "bool \<Rightarrow> kn \<Rightarrow> bool" where
  "focus_entry focusComesFromChart s \<longleftrightarrow>
     \<not> exiting s \<and> \<not> tabbingInBackwards s \<and> \<not> isClickingChart s \<and> \<not> focusComesFromChart"

text \<open>The number of invalid handlers at the end of the list.\<close>

definition trailing_invalid :: "handler list \<Rightarrow> nat" where
  "trailing_invalid ms = length (takeWhile invalid (rev ms))"

text \<open>The handler at the current index.\<close>

definition curModule :: "kn \<Rightarrow> handler option" where
  "curModule s = module_at (modules s) (currentModuleIx s)"

text \<open>
  Events whose calls of \<open>move\<close> have direction \<open>1\<close> or \<open>- 1\<close>, and instances that have an exit
  anchor if they have a handler.
\<close>

fun unit_move :: "event \<Rightarrow> bool" where
  "unit_move (Move d) = (d = 1 \<or> d = - 1)"
| "unit_move ev = True"

definition anchored :: "kn \<Rightarrow> bool" where
  "anchored s \<longleftrightarrow> modules s = [] \<or> exitAnchor s \<noteq> None"

text \<open>
  The events under which the class keeps at most one handler active: focus enters from
  outside only while the index is \<open>0\<close>; focus arrives on the exit anchor from outside only
  while no handler is active; \<open>move\<close> is called with \<open>1\<close> or \<open>- 1\<close>; \<open>update\<close> is called only while
  no handler is active and leaves only handlers that have \<open>terminate\<close>.
\<close>

fun admissible :: "event \<Rightarrow> kn \<Rightarrow> bool" where
  "admissible (FocusEnter b) s = (currentModuleIx s = 0 \<or> \<not> focus_entry b s)"
| "admissible (ExitAnchorFocus b) s = (b \<or> exiting s \<or> active (trace s) = {})"
| "admissible (Move d) s = (d = 1 \<or> d = - 1)"
| "admissible (Rebuild opts components endMarker n order) s =
     (active (trace s) = {} \<and>
      list_all has_terminate (modules (snd (update opts components endMarker n order s))))"
| "admissible ev s = True"

fun admissible_run :: "event list \<Rightarrow> kn \<Rightarrow> bool" where
  "admissible_run [] s = True"
| "admissible_run (ev # evs) s =
     (admissible ev s \<and> (case fire ev s of None \<Rightarrow> True | Some s' \<Rightarrow> admissible_run evs s'))"

text \<open>
  Every handler in the list has \<open>terminate\<close>, and no handler but the one at the current
  index is active.
\<close>

definition one_active :: "kn \<Rightarrow> bool" where
  "one_active s \<longleftrightarrow>
     list_all has_terminate (modules s) \<and> active (trace s) \<subseteq> set_option (curModule s)"

definition advance_effects :: "int \<Rightarrow> kn \<Rightarrow> effect list" where
  "advance_effects d s =
     Call_move d #
     (case module_at (modules s) (currentModuleIx s) of
        Some m \<Rightarrow> if has_terminate m then [Terminate m (Some d)] else []
      | None \<Rightarrow> []) @
     (if focusElement s then [RemoveFocusBorder] else [])"

text \<open>
  The number of handlers that \<open>move\<close> passes over: the invalid ones that come first in the
  direction of motion.
\<close>

definition skipped :: "int \<Rightarrow> kn \<Rightarrow> nat" where
  "skipped d s = length (takeWhile invalid (ahead d s))"

text \<open>The effects that \<open>move\<close> itself has: it runs no handler and suppresses no default.\<close>

fun move_effect :: "effect \<Rightarrow> bool" where
  "move_effect (Run m) = False"
| "move_effect PreventDefault = False"
| "move_effect StopPropagation = False"
| "move_effect e = True"

text \<open>What one call of \<open>move\<close> with direction \<open>1\<close> or \<open>- 1\<close> returns and leaves behind.\<close>

definition move_post :: "int \<Rightarrow> kn \<Rightarrow> error + bool \<Rightarrow> kn \<Rightarrow> effect list \<Rightarrow> bool" where
  "move_post d s r s' es \<longleftrightarrow>
     trace s' = trace s @ es \<and> modules s' = modules s
     \<and> s' = s\<lparr>currentModuleIx := currentModuleIx s', exiting := exiting s', trace := trace s'\<rparr>
     \<and> list_all move_effect es
     \<and> move_calls es \<le> Suc (skipped d s)
     \<and> (r = Inr True \<longrightarrow>
          skipped d s < length (ahead d s) \<and>
          \<not> invalid (ahead d s ! skipped d s) \<and>
          has_init (ahead d s ! skipped d s) \<and>
          inits es = [(ahead d s ! skipped d s, d)] \<and>
          (\<exists>es0. es = es0 @ [Init (ahead d s ! skipped d s) d]) \<and>
          currentModuleIx s' = currentModuleIx s + d * (1 + int (skipped d s)) \<and>
          module_at (modules s) (currentModuleIx s') = Some (ahead d s ! skipped d s) \<and>
          exiting s' = exiting s)
     \<and> (r \<noteq> Inr True \<longrightarrow>
          inits es = [] \<and> currentModuleIx s' = 0 \<and> exiting s' \<and>
          (r = Inl TypeError \<longleftrightarrow> d > 0 \<and> exitAnchor s = None) \<and>
          (r = Inr False \<longrightarrow>
             (\<exists>es0. es = es0 @ [if d > 0 then Focus_exitAnchor else Focus_tabindexContainer])))
     \<and> ((\<forall>m\<in>set (ahead d s). invalid m) \<longrightarrow> r \<noteq> Inr True)
     \<and> (- 1 \<le> currentModuleIx s \<and> currentModuleIx s \<le> int (length (modules s)) \<longrightarrow>
          move_calls es = Suc (skipped d s) \<and>
          (skipped d s < length (ahead d s) \<and> has_init (ahead d s ! skipped d s)
             \<longrightarrow> r = Inr True))"

subsection \<open>Instances used as examples\<close>

text \<open>
  The handler of ContainerComponent (\<open>validate\<close> returns true, \<open>init\<close> focuses the
  container, no \<open>terminate\<close>) and the button handlers of ZoomComponent
  (\<open>simpleButtonNavigation\<close>: \<open>validate\<close> tells whether the chart has the button, \<open>init\<close>, no
  \<open>terminate\<close>), and a handler given by its four properties.
\<close>

definition containerHandler :: handler where
  "containerHandler = \<lparr>mid = 0, validate = Some True, has_init = True, has_terminate = False\<rparr>"

definition simpleButtonNavigation :: "nat \<Rightarrow> bool \<Rightarrow> handler" where
  "simpleButtonNavigation n hasButton =
     \<lparr>mid = n, validate = Some hasButton, has_init = True, has_terminate = False\<rparr>"

definition handler_of :: "nat \<Rightarrow> bool option \<Rightarrow> bool \<Rightarrow> bool \<Rightarrow> handler" where
  "handler_of n v i t = \<lparr>mid = n, validate = v, has_init = i, has_terminate = t\<rparr>"

text \<open>An instance with the given handlers and index, an exit anchor in the document and no flag set.\<close>

definition kn0 :: "handler list \<Rightarrow> int \<Rightarrow> kn" where
  "kn0 ms ix =
    \<lparr>modules = ms, currentModuleIx = ix,
     exitAnchor = Some 1,
     elements = (\<lambda>a. \<lparr>parentNode = (a = 1), attributes = []\<rparr>), exiting = False,
     isClickingChart = False, keyboardReset = False, pointerIsOverChart = False,
     tabbingInBackwards = False, tabindexContainer = Container,
     renderTo_tabindex = None, container_tabindex = Some ''0'',
     focusElement = False, eventProvider = [], trace = []\<rparr>"

text \<open>The instance as the constructor leaves it, with navigation enabled in the options.\<close>

definition constructed :: kn where
  "constructed = init (Some (Some True)) None None"

definition all_invalid3 :: kn where
  "all_invalid3 =
     kn0 [handler_of 0 (Some True) True True, handler_of 1 (Some False) True True,
          handler_of 2 (Some False) True True, handler_of 3 (Some False) True True] 0"

definition valid_without_init :: kn where
  "valid_without_init =
     kn0 [containerHandler, handler_of 1 (Some True) False False,
          simpleButtonNavigation 2 True] 0"

definition stale_index :: kn where
  "stale_index =
     kn0 [containerHandler, simpleButtonNavigation 1 True, simpleButtonNavigation 2 True] 2"


definition pointer_outside :: kn where
  "pointer_outside =
     (kn0 [containerHandler, handler_of 2 (Some True) True True] 1)\<lparr>focusElement := True\<rparr>"

text \<open>
  A forward exit and the focus event of the exit anchor that follows it: from the second
  of three handlers, of which the third is invalid, \<open>move(1)\<close> finds no handler and focuses
  the exit anchor, whose listener then clears \<open>exiting\<close>.
\<close>

definition round_trip_start :: kn where
  "round_trip_start =
     kn0 [containerHandler, simpleButtonNavigation 2 True, simpleButtonNavigation 3 False] 1"

definition round_trip_mid :: kn where
  "round_trip_mid =
     (case run_events [Move 1, ExitAnchorFocus True] round_trip_start of
        Some s \<Rightarrow> s | None \<Rightarrow> round_trip_start)"

text \<open>
  Two charts whose last valid handler has no \<open>init\<close>: in the first an invalid handler comes
  after it, in the second it is the last handler.
\<close>

definition reenter_without_init :: kn where
  "reenter_without_init =
     kn0 [containerHandler, handler_of 2 (Some True) False False,
          simpleButtonNavigation 3 False] 0"

definition reenter_last_without_init :: kn where
  "reenter_last_without_init =
     kn0 [containerHandler, handler_of 2 (Some True) False False] 0"

text \<open>
  A chart whose three handlers all have \<open>terminate\<close> (the second is invalid, the third has
  no \<open>validate\<close>), and a session on it: build, enter, move on, click outside, enter again,
  leave backwards, and come back in through the exit anchor.
\<close>

definition terminable_components :: "string \<rightharpoonup> handler list" where
  "terminable_components =
     [''series'' \<mapsto> [handler_of 2 (Some True) True True, handler_of 3 (Some False) True True,
                     handler_of 4 None True True]]"

definition navigate :: "event list" where
  "navigate =
     [Rebuild (Some (Some True)) terminable_components None 7 (Some [''series'']),
      FocusEnter False, KeyDown MoveNext, PointerOut, PointerUp, FocusEnter False,
      KeyDown MovePrev, ExitAnchorFocus False, ExitAnchorFocus False]"

text \<open>
  The scenario of three handlers of which the second is invalid: focus enters, the first
  key is answered with MoveNext and so is the second.
\<close>

definition valid_invalid_valid :: kn where
  "valid_invalid_valid =
     kn0 [handler_of 2 (Some True) True True, handler_of 3 (Some False) True True,
          handler_of 4 (Some True) True True] 0"

definition enter_twice :: "event list" where
  "enter_twice =
     [Rebuild (Some (Some True)) terminable_components None 7 (Some [''series'']),
      FocusEnter False, KeyDown MoveNext, FocusEnter False]"

section \<open>Properties\<close>

subsection \<open>Unfolding move\<close>

lemma move_unfold:
  "move d s =
    (case module_at (modules (move_advance d s)) (currentModuleIx (move_advance d s)) of
       Some newModule \<Rightarrow>
         if invalid newModule then move d (move_advance d s)
         else if has_init newModule
         then Some (Inr True, emit (Init newModule d) (move_advance d s))
         else Some (move_no_module d (move_advance d s))
     | None \<Rightarrow> Some (move_no_module d (move_advance d s)))"
  by (subst move.simps) (simp only: move_advance_def move_no_module_def invalid_def Let_def)

lemma modules_move_advance [simp]: "modules (move_advance d s) = modules s"
  by (simp add: move_advance_def emit_def Let_def split: option.split)

lemma ix_move_advance [simp]: "currentModuleIx (move_advance d s) = currentModuleIx s + d"
  by (simp add: move_advance_def emit_def Let_def split: option.split)

lemma frame_move_advance [simp]:
  "exitAnchor (move_advance d s) = exitAnchor s"
  "exiting (move_advance d s) = exiting s"
  "focusElement (move_advance d s) = focusElement s"
  by (simp_all add: move_advance_def emit_def Let_def split: option.split)

lemma trace_move_advance: "trace (move_advance d s) = trace s @ advance_effects d s"
  by (simp add: move_advance_def advance_effects_def emit_def Let_def split: option.split)

lemma move_advance_eq:
  "move_advance d s =
     s\<lparr>currentModuleIx := currentModuleIx s + d, trace := trace s @ advance_effects d s\<rparr>"
  by (cases s)
     (simp add: move_advance_def advance_effects_def emit_def Let_def split: option.split)

lemma move_no_module_result:
  "move_no_module d s =
    (if d > 0 \<and> exitAnchor s = None then Inl TypeError else Inr False,
     s\<lparr>currentModuleIx := 0, exiting := True,
        trace := trace s @ (if d > 0 then (if exitAnchor s = None then [] else [Focus_exitAnchor])
                            else [Focus_tabindexContainer])\<rparr>)"
  by (cases s) (simp add: move_no_module_def emit_def Let_def split: option.split)

lemma move_step_cases [case_names none skip land noinit]:
  obtains
    (none) "module_at (modules s) (currentModuleIx s + d) = None"
      "move d s = Some (move_no_module d (move_advance d s))"
  | (skip) m where "module_at (modules s) (currentModuleIx s + d) = Some m" "invalid m"
      "move d s = move d (move_advance d s)"
  | (land) m where "module_at (modules s) (currentModuleIx s + d) = Some m" "\<not> invalid m"
      "has_init m" "move d s = Some (Inr True, emit (Init m d) (move_advance d s))"
  | (noinit) m where "module_at (modules s) (currentModuleIx s + d) = Some m" "\<not> invalid m"
      "\<not> has_init m" "move d s = Some (move_no_module d (move_advance d s))"
proof (cases "module_at (modules s) (currentModuleIx s + d)")
  case None
  then have "move d s = Some (move_no_module d (move_advance d s))"
    by (subst move_unfold) simp
  with None show ?thesis using none by simp
next
  case (Some m)
  then have "move d s =
      (if invalid m then move d (move_advance d s)
       else if has_init m then Some (Inr True, emit (Init m d) (move_advance d s))
       else Some (move_no_module d (move_advance d s)))"
    by (subst move_unfold) simp
  with Some show ?thesis using skip[of m] land[of m] noinit[of m]
    by (cases "invalid m"; cases "has_init m") simp_all
qed

subsection \<open>The handlers ahead\<close>

lemma ahead_next_fwd:
  assumes "module_at (modules s) (currentModuleIx s + 1) = Some m"
  shows "ahead 1 s = m # ahead 1 (move_advance 1 s)"
proof -
  from assms have r: "0 \<le> currentModuleIx s + 1" "nat (currentModuleIx s + 1) < length (modules s)"
    and m: "m = modules s ! nat (currentModuleIx s + 1)"
    by (auto simp: module_at_def split: if_splits)
  have "nat (currentModuleIx s + 1 + 1) = Suc (nat (currentModuleIx s + 1))" using r by simp
  then show ?thesis using r m
    by (simp add: ahead_def Cons_nth_drop_Suc)
qed

lemma ahead_next_bwd:
  assumes "module_at (modules s) (currentModuleIx s - 1) = Some m"
  shows "ahead (- 1) s = m # ahead (- 1) (move_advance (- 1) s)"
proof -
  from assms have r: "0 \<le> currentModuleIx s - 1" "nat (currentModuleIx s - 1) < length (modules s)"
    and m: "m = modules s ! nat (currentModuleIx s - 1)"
    by (auto simp: module_at_def split: if_splits)
  have "nat (currentModuleIx s) = Suc (nat (currentModuleIx s - 1))" using r by simp
  then show ?thesis using r m
    by (simp add: ahead_def take_Suc_conv_app_nth)
qed

lemma ahead_next:
  assumes "d = 1 \<or> d = - 1" "module_at (modules s) (currentModuleIx s + d) = Some m"
  shows "ahead d s = m # ahead d (move_advance d s)"
  using assms ahead_next_fwd[of s m] ahead_next_bwd[of s m] by auto

lemma ahead_none:
  assumes "d = 1 \<or> d = - 1" "module_at (modules s) (currentModuleIx s + d) = None"
    "- 1 \<le> currentModuleIx s" "currentModuleIx s \<le> int (length (modules s))"
  shows "ahead d s = []"
  using assms by (auto simp: ahead_def module_at_def split: if_splits)

lemma move_induct [consumes 1, case_names step]:
  assumes d: "d = 1 \<or> d = - 1"
    and step: "\<And>s. (\<And>m. module_at (modules s) (currentModuleIx s + d) = Some m \<Longrightarrow> invalid m
                  \<Longrightarrow> P (move_advance d s)) \<Longrightarrow> P s"
  shows "P s"
proof (induction "length (ahead d s)" arbitrary: s rule: less_induct)
  case less
  show ?case
  proof (rule step)
    fix m assume "module_at (modules s) (currentModuleIx s + d) = Some m" "invalid m"
    then have "ahead d s = m # ahead d (move_advance d s)" using d ahead_next by blast
    then show "P (move_advance d s)" using less by simp
  qed
qed

subsection \<open>Effects\<close>

lemma effects_since_append [simp]: "trace s' = trace s @ es \<Longrightarrow> effects_since s s' = es"
  by (simp add: effects_since_def)

lemma inits_append [simp]: "inits (xs @ ys) = inits xs @ inits ys"
  by (simp add: inits_def)

lemma move_calls_append [simp]: "move_calls (xs @ ys) = move_calls xs + move_calls ys"
  by (simp add: move_calls_def)

lemma inits_simps [simp]:
  "inits [] = []" "inits (Init m d # es) = (m, d) # inits es"
  "inits (Call_move d # es) = inits es" "inits (Terminate m t # es) = inits es"
  "inits (Run m # es) = inits es" "inits (RemoveFocusBorder # es) = inits es"
  "inits (Focus_exitAnchor # es) = inits es" "inits (Focus_tabindexContainer # es) = inits es"
  "inits (PreventDefault # es) = inits es" "inits (StopPropagation # es) = inits es"
  by (simp_all add: inits_def)

lemma move_calls_simps [simp]:
  "move_calls [] = 0" "move_calls (Init m d # es) = move_calls es"
  "move_calls (Call_move d # es) = Suc (move_calls es)"
  "move_calls (Terminate m t # es) = move_calls es"
  "move_calls (Run m # es) = move_calls es" "move_calls (RemoveFocusBorder # es) = move_calls es"
  "move_calls (Focus_exitAnchor # es) = move_calls es"
  "move_calls (Focus_tabindexContainer # es) = move_calls es"
  "move_calls (PreventDefault # es) = move_calls es"
  "move_calls (StopPropagation # es) = move_calls es"
  by (simp_all add: move_calls_def)

lemma inits_advance_effects [simp]: "inits (advance_effects d s) = []"
  by (cases "module_at (modules s) (currentModuleIx s)") (simp_all add: advance_effects_def)

lemma move_calls_advance_effects [simp]: "move_calls (advance_effects d s) = 1"
  by (cases "module_at (modules s) (currentModuleIx s)") (simp_all add: advance_effects_def)


lemma move_effect_advance_effects [simp]: "list_all move_effect (advance_effects d s)"
  by (cases "module_at (modules s) (currentModuleIx s)") (simp_all add: advance_effects_def)

subsection \<open>What move returns\<close>

lemma no_module_post:
  assumes nm: "move_no_module d (move_advance d s) = (r, s')"
    and d: "d = 1 \<or> d = - 1"
    and c: "module_at (modules s) (currentModuleIx s + d) = None \<or>
            (\<exists>m. module_at (modules s) (currentModuleIx s + d) = Some m \<and> \<not> invalid m \<and> \<not> has_init m)"
  shows "\<exists>es. move_post d s r s' es"
proof -
  let ?x = "if d > 0 then (if exitAnchor s = None then [] else [Focus_exitAnchor])
            else [Focus_tabindexContainer]"
  from nm have "r = fst (move_no_module d (move_advance d s))"
    "s' = snd (move_no_module d (move_advance d s))" by simp_all
  then have r: "r = (if d > 0 \<and> exitAnchor s = None then Inl TypeError else Inr False)"
    and s': "s' = (move_advance d s)\<lparr>currentModuleIx := 0, exiting := True,
                 trace := trace (move_advance d s) @ ?x\<rparr>"
    by (simp_all add: move_no_module_result)
  have k: "- 1 \<le> currentModuleIx s \<and> currentModuleIx s \<le> int (length (modules s)) \<Longrightarrow>
       skipped d s = 0 \<and> \<not> (0 < length (ahead d s) \<and> has_init (ahead d s ! 0))"
    using c
  proof
    assume "module_at (modules s) (currentModuleIx s + d) = None"
      and "- 1 \<le> currentModuleIx s \<and> currentModuleIx s \<le> int (length (modules s))"
    then have "ahead d s = []" using ahead_none[OF d] by blast
    then show ?thesis by (simp add: skipped_def)
  next
    assume "\<exists>m. module_at (modules s) (currentModuleIx s + d) = Some m \<and> \<not> invalid m \<and> \<not> has_init m"
    then obtain m where "module_at (modules s) (currentModuleIx s + d) = Some m"
      "\<not> invalid m" "\<not> has_init m" by blast
    then show ?thesis using ahead_next[OF d, of s m] by (simp add: skipped_def)
  qed
  have nt: "r \<noteq> Inr True" by (simp add: r)
  have "move_post d s r s' (advance_effects d s @ ?x)"
    unfolding move_post_def
  proof (intro conjI impI)
    show "trace s' = trace s @ advance_effects d s @ ?x" by (simp add: s' trace_move_advance)
    show "modules s' = modules s" by (simp add: s')
    show "s' = s\<lparr>currentModuleIx := currentModuleIx s', exiting := exiting s', trace := trace s'\<rparr>"
      by (simp add: s' move_advance_eq)
    show "move_calls (advance_effects d s @ ?x) \<le> Suc (skipped d s)" by simp
    show "list_all move_effect (advance_effects d s @ ?x)" by simp
    show "inits (advance_effects d s @ ?x) = []" by simp
    show "currentModuleIx s' = 0" by (simp add: s')
    show "exiting s'" by (simp add: s')
    show "(r = Inl TypeError) = (0 < d \<and> exitAnchor s = None)" by (simp add: r)
    show "\<exists>es0. advance_effects d s @ ?x =
        es0 @ [if 0 < d then Focus_exitAnchor else Focus_tabindexContainer]"
      if "r = Inr False" using that by (auto simp: r split: if_splits)
    show "move_calls (advance_effects d s @ ?x) = Suc (skipped d s)"
      if "- 1 \<le> currentModuleIx s \<and> currentModuleIx s \<le> int (length (modules s))"
      using k[OF that] by simp
    show "r = Inr True"
      if "- 1 \<le> currentModuleIx s \<and> currentModuleIx s \<le> int (length (modules s))"
        "skipped d s < length (ahead d s) \<and> has_init (ahead d s ! skipped d s)"
      using k[OF that(1)] that(2) by simp
  qed (use nt in simp_all)
  then show ?thesis ..
qed



lemma land_post:
  assumes m: "module_at (modules s) (currentModuleIx s + d) = Some m"
    and d: "d = 1 \<or> d = - 1" and v: "\<not> invalid m" and i: "has_init m"
  shows "\<exists>es. move_post d s (Inr True) (emit (Init m d) (move_advance d s)) es"
proof -
  let ?s' = "emit (Init m d) (move_advance d s)"
  have a: "ahead d s = m # ahead d (move_advance d s)" using ahead_next[OF d m] .
  then have k: "skipped d s = 0" using v by (simp add: skipped_def)
  have a0: "ahead d s ! 0 = m" "0 < length (ahead d s)" "m \<in> set (ahead d s)"
    by (simp_all add: a)
  have "move_post d s (Inr True) ?s' (advance_effects d s @ [Init m d])"
    unfolding move_post_def k
  proof (intro conjI impI)
    show "trace ?s' = trace s @ advance_effects d s @ [Init m d]"
      by (simp add: emit_def trace_move_advance)
    show "modules ?s' = modules s" by (simp add: emit_def)
    show "?s' = s\<lparr>currentModuleIx := currentModuleIx ?s', exiting := exiting ?s', trace := trace ?s'\<rparr>"
      by (simp add: emit_def move_advance_eq)
    show "currentModuleIx ?s' = currentModuleIx s + d * (1 + int 0)" by (simp add: emit_def)
    show "module_at (modules s) (currentModuleIx ?s') = Some (ahead d s ! 0)"
      using m by (simp add: emit_def a0)
    show "exiting ?s' = exiting s" by (simp add: emit_def)
    show "Inr True \<noteq> (Inr True :: error + bool)" if "\<forall>m\<in>set (ahead d s). invalid m"
      using that a0(3) v by blast
  qed (use v i a0 in simp_all)
  then show ?thesis ..
qed

lemma skip_post:
  assumes m: "module_at (modules s) (currentModuleIx s + d) = Some m"
    and d: "d = 1 \<or> d = - 1" and v: "invalid m"
    and p: "move_post d (move_advance d s) r s' es"
  shows "move_post d s r s' (advance_effects d s @ es)"
proof -
  let ?a = "move_advance d s"
  have a: "ahead d s = m # ahead d ?a" using ahead_next[OF d m] .
  then have k: "skipped d s = Suc (skipped d ?a)" using v by (simp add: skipped_def)
  have alg: "currentModuleIx s + d + d * (1 + int (skipped d ?a))
           = currentModuleIx s + d * (1 + int (Suc (skipped d ?a)))"
    by (simp add: algebra_simps)
  have rng: "- 1 \<le> currentModuleIx ?a \<and> currentModuleIx ?a \<le> int (length (modules ?a))"
    using m by (auto simp: module_at_def split: if_splits)
  from p have p1: "trace s' = trace ?a @ es" and p2: "modules s' = modules ?a"
    and p9: "list_all move_effect es"
    and p10: "s' = ?a\<lparr>currentModuleIx := currentModuleIx s', exiting := exiting s', trace := trace s'\<rparr>"
    and p3: "move_calls es \<le> Suc (skipped d ?a)"
    and p4: "r = Inr True \<Longrightarrow>
          skipped d ?a < length (ahead d ?a) \<and>
          \<not> invalid (ahead d ?a ! skipped d ?a) \<and>
          has_init (ahead d ?a ! skipped d ?a) \<and>
          inits es = [(ahead d ?a ! skipped d ?a, d)] \<and>
          (\<exists>es0. es = es0 @ [Init (ahead d ?a ! skipped d ?a) d]) \<and>
          currentModuleIx s' = currentModuleIx ?a + d * (1 + int (skipped d ?a)) \<and>
          module_at (modules ?a) (currentModuleIx s') = Some (ahead d ?a ! skipped d ?a) \<and>
          exiting s' = exiting ?a"
    and p5: "r \<noteq> Inr True \<Longrightarrow>
          inits es = [] \<and> currentModuleIx s' = 0 \<and> exiting s' \<and>
          (r = Inl TypeError \<longleftrightarrow> d > 0 \<and> exitAnchor ?a = None) \<and>
          (r = Inr False \<longrightarrow>
             (\<exists>es0. es = es0 @ [if d > 0 then Focus_exitAnchor else Focus_tabindexContainer]))"
    and p6: "(\<forall>m\<in>set (ahead d ?a). invalid m) \<Longrightarrow> r \<noteq> Inr True"
    and p7: "move_calls es = Suc (skipped d ?a)"
    and p8: "skipped d ?a < length (ahead d ?a) \<and> has_init (ahead d ?a ! skipped d ?a)
             \<Longrightarrow> r = Inr True"
    unfolding move_post_def using rng by blast+
  show ?thesis
    unfolding move_post_def a k
  proof (intro conjI impI)
    show "trace s' = trace s @ advance_effects d s @ es" by (simp add: p1 trace_move_advance)
    show "modules s' = modules s" by (simp add: p2)
    show "move_calls (advance_effects d s @ es) \<le> Suc (Suc (skipped d ?a))" using p3 by simp
    show "list_all move_effect (advance_effects d s @ es)" using p9 by simp
    show "s' = s\<lparr>currentModuleIx := currentModuleIx s', exiting := exiting s', trace := trace s'\<rparr>"
      by (subst p10) (simp add: move_advance_eq)
    show "move_calls (advance_effects d s @ es) = Suc (Suc (skipped d ?a))" using p7 by simp
    show "r \<noteq> Inr True" if "\<forall>m\<in>set (m # ahead d ?a). invalid m" using that p6 by simp
    show "r = Inr True"
      if "Suc (skipped d ?a) < length (m # ahead d ?a) \<and>
          has_init ((m # ahead d ?a) ! Suc (skipped d ?a))"
      using that p8 by simp
  next
    assume t: "r = Inr True"
    note q = p4[OF t]
    show "Suc (skipped d ?a) < length (m # ahead d ?a)" using q by simp
    show "\<not> invalid ((m # ahead d ?a) ! Suc (skipped d ?a))" using q by simp
    show "has_init ((m # ahead d ?a) ! Suc (skipped d ?a))" using q by simp
    show "inits (advance_effects d s @ es) = [((m # ahead d ?a) ! Suc (skipped d ?a), d)]"
      using q by simp
    show "\<exists>es0. advance_effects d s @ es = es0 @ [Init ((m # ahead d ?a) ! Suc (skipped d ?a)) d]"
      using q by auto
    show "currentModuleIx s' = currentModuleIx s + d * (1 + int (Suc (skipped d ?a)))"
      using q alg by simp
    from q have "module_at (modules ?a) (currentModuleIx s') = Some (ahead d ?a ! skipped d ?a)"
      by blast
    then show "module_at (modules s) (currentModuleIx s') = Some ((m # ahead d ?a) ! Suc (skipped d ?a))"
      by simp
    show "exiting s' = exiting s" using q by simp
  next
    assume t: "r \<noteq> Inr True"
    note q = p5[OF t]
    show "inits (advance_effects d s @ es) = []" using q by simp
    show "currentModuleIx s' = 0" using q by simp
    show "exiting s'" using q by simp
    show "(r = Inl TypeError) = (0 < d \<and> exitAnchor s = None)" using q by simp
    show "\<exists>es0. advance_effects d s @ es =
         es0 @ [if 0 < d then Focus_exitAnchor else Focus_tabindexContainer]"
      if "r = Inr False" using q that by auto
  qed
qed

lemma move_returns:
  assumes "d = 1 \<or> d = - 1"
  shows "\<exists>r s' es. move d s = Some (r, s') \<and> move_post d s r s' es"
  using assms
proof (induction s rule: move_induct)
  case (step s)
  note d = \<open>d = 1 \<or> d = - 1\<close>
  show ?case
  proof (cases rule: move_step_cases[of s d])
    case none
    obtain r s' where rs: "move_no_module d (move_advance d s) = (r, s')" by fastforce
    then show ?thesis using no_module_post[OF rs d] none by auto
  next
    case (skip m)
    from step.IH[OF skip(1,2)] obtain r s' es
      where "move d (move_advance d s) = Some (r, s')" "move_post d (move_advance d s) r s' es"
      by blast
    then show ?thesis using skip_post[OF skip(1) d skip(2)] skip(3) by metis
  next
    case (land m)
    then show ?thesis using land_post[OF land(1) d land(2,3)] by auto
  next
    case (noinit m)
    obtain r s' where rs: "move_no_module d (move_advance d s) = (r, s')" by fastforce
    then show ?thesis using no_module_post[OF rs d] noinit by auto
  qed
qed


subsection \<open>Claims about move\<close>

text \<open>
  C1 (the claim as stated fails). The constructor leaves an empty list of handlers and no
  exit anchor. There no valid handler lies ahead, and \<open>move(1)\<close> sets the index to \<open>0\<close> and
  \<open>exiting\<close> and then raises at \<open>this.exitAnchor.focus()\<close>: it neither focuses the exit anchor
  nor returns false.
\<close>

theorem move_raises_without_exitAnchor:
  "modules constructed = [] \<and> exitAnchor constructed = None \<and>
   map_option (\<lambda>(r, s'). (r, currentModuleIx s', exiting s', effects_since constructed s'))
     (move 1 constructed)
   = Some (Inl TypeError, 0, True, [Call_move 1])"
  by code_simp

text \<open>
  C1 (amended). For every list of handlers, every start index and each of the directions
  \<open>1\<close> and \<open>- 1\<close>, \<open>move\<close> comes to an end and never calls \<open>init\<close> on a handler whose
  \<open>validate()\<close> returns false. When it returns true it has passed over the invalid handlers
  that come first in the direction of motion and has initialised the handler behind them
  and no other, and the index names that handler. From a start index between \<open>- 1\<close> and
  the length of the list it does return true whenever the first handler ahead that is
  not invalid has \<open>init\<close>. When every handler in the direction of motion is invalid, it
  initialises nothing and sets the index to \<open>0\<close> and \<open>exiting\<close>; and then, for the backward
  direction, or for the forward direction when the exit anchor exists, its last act is
  \<open>focus()\<close> on the container that carries the tabindex (backward) or on the exit anchor
  (forward), and it returns false.
\<close>

theorem move_skips_invalid_and_exits:
  assumes "direction = 1 \<or> direction = - 1"
  shows "\<exists>r s'. move direction s = Some (r, s') \<and>
      (\<forall>(m, d)\<in>set (inits (effects_since s s')). \<not> invalid m) \<and>
      (r = Inr True \<longrightarrow>
         inits (effects_since s s') = [(ahead direction s ! skipped direction s, direction)] \<and>
         currentModuleIx s' = currentModuleIx s + direction * (1 + int (skipped direction s))) \<and>
      (- 1 \<le> currentModuleIx s \<and> currentModuleIx s \<le> int (length (modules s)) \<and>
       skipped direction s < length (ahead direction s) \<and>
       has_init (ahead direction s ! skipped direction s) \<longrightarrow> r = Inr True) \<and>
      ((\<forall>m\<in>set (ahead direction s). invalid m) \<longrightarrow>
         r \<noteq> Inr True \<and> inits (effects_since s s') = [] \<and>
         currentModuleIx s' = 0 \<and> exiting s' \<and>
         (direction < 0 \<or> exitAnchor s \<noteq> None \<longrightarrow>
            r = Inr False \<and>
            last (trace s') = (if direction > 0 then Focus_exitAnchor else Focus_tabindexContainer)))"
proof -
  from move_returns[OF assms, of s] obtain r s' es
    where mv: "move direction s = Some (r, s')" and p: "move_post direction s r s' es"
    by blast
  from p have tr: "trace s' = trace s @ es" by (simp add: move_post_def)
  then have es: "effects_since s s' = es" by simp
  have t: "r = Inr True \<Longrightarrow>
      \<not> invalid (ahead direction s ! skipped direction s) \<and>
      inits es = [(ahead direction s ! skipped direction s, direction)] \<and>
      currentModuleIx s' = currentModuleIx s + direction * (1 + int (skipped direction s))"
    using p unfolding move_post_def by blast
  have f: "r \<noteq> Inr True \<Longrightarrow> inits es = [] \<and> currentModuleIx s' = 0 \<and> exiting s' \<and>
      (r = Inl TypeError \<longleftrightarrow> direction > 0 \<and> exitAnchor s = None) \<and>
      (r = Inr False \<longrightarrow>
         (\<exists>es0. es = es0 @ [if direction > 0 then Focus_exitAnchor else Focus_tabindexContainer]))"
    using p unfolding move_post_def by blast
  have a: "(\<forall>m\<in>set (ahead direction s). invalid m) \<Longrightarrow> r \<noteq> Inr True"
    using p unfolding move_post_def by blast
  have l: "- 1 \<le> currentModuleIx s \<and> currentModuleIx s \<le> int (length (modules s)) \<and>
       skipped direction s < length (ahead direction s) \<and>
       has_init (ahead direction s ! skipped direction s) \<Longrightarrow> r = Inr True"
    using p unfolding move_post_def by blast
  have c1: "\<forall>(m, d)\<in>set (inits es). \<not> invalid m"
    using t f by (cases "r = Inr True") auto
  have c3: "r \<noteq> Inr True \<and> inits es = [] \<and> currentModuleIx s' = 0 \<and> exiting s' \<and>
         (direction < 0 \<or> exitAnchor s \<noteq> None \<longrightarrow>
            r = Inr False \<and>
            last (trace s') = (if direction > 0 then Focus_exitAnchor else Focus_tabindexContainer))"
    if h: "\<forall>m\<in>set (ahead direction s). invalid m"
  proof -
    from h a have n: "r \<noteq> Inr True" by blast
    note g = f[OF n]
    have "r = Inr False \<and>
        last (trace s') = (if direction > 0 then Focus_exitAnchor else Focus_tabindexContainer)"
      if e: "direction < 0 \<or> exitAnchor s \<noteq> None"
    proof -
      from g e have "r \<noteq> Inl TypeError" by auto
      with n have rf: "r = Inr False" by (cases r) (auto intro: error.exhaust)
      with g obtain es0 where
        "es = es0 @ [if direction > 0 then Focus_exitAnchor else Focus_tabindexContainer]" by blast
      then have "last (trace s') =
          (if direction > 0 then Focus_exitAnchor else Focus_tabindexContainer)"
        by (simp add: tr)
      with rf show ?thesis by blast
    qed
    with n g show ?thesis by blast
  qed
  show ?thesis
    apply (rule exI[of _ r], rule exI[of _ s'])
    unfolding es using mv c1 t l c3 by blast
qed

theorem move_skips_invalid_and_exits_witness:
  "(list_all invalid (ahead 1 all_invalid3) \<and> exitAnchor all_invalid3 \<noteq> None \<and>
    (\<exists>s'. move 1 all_invalid3 = Some (Inr False, s') \<and>
       inits (effects_since all_invalid3 s') = [] \<and>
       currentModuleIx s' = 0 \<and> exiting s' \<and> last (trace s') = Focus_exitAnchor)) \<and>
   (skipped 1 valid_invalid_valid = 1 \<and> length (ahead 1 valid_invalid_valid) = 2 \<and>
    (\<exists>s'. move 1 valid_invalid_valid = Some (Inr True, s') \<and>
       inits (effects_since valid_invalid_valid s') = [(handler_of 4 (Some True) True True, 1)] \<and>
       currentModuleIx s' = 2))"
proof -
  have h: "list_all invalid (ahead 1 all_invalid3)" "exitAnchor all_invalid3 \<noteq> None"
    by (simp_all add: all_invalid3_def kn0_def handler_of_def ahead_def invalid_def)
  then have "\<forall>m\<in>set (ahead 1 all_invalid3). invalid m" by (simp add: list_all_iff)
  with move_skips_invalid_and_exits[of 1 all_invalid3] h
  have A: "\<exists>s'. move 1 all_invalid3 = Some (Inr False, s') \<and>
       inits (effects_since all_invalid3 s') = [] \<and>
       currentModuleIx s' = 0 \<and> exiting s' \<and> last (trace s') = Focus_exitAnchor"
    by auto
  have k: "skipped 1 valid_invalid_valid = 1" "length (ahead 1 valid_invalid_valid) = 2"
    "ahead 1 valid_invalid_valid ! 1 = handler_of 4 (Some True) True True"
    "has_init (handler_of 4 (Some True) True True)"
    "currentModuleIx valid_invalid_valid = 0" "length (modules valid_invalid_valid) = 3"
    by (simp_all add: valid_invalid_valid_def kn0_def handler_of_def ahead_def invalid_def
          skipped_def)
  from move_skips_invalid_and_exits[of 1 valid_invalid_valid] obtain r s' where
    m: "move 1 valid_invalid_valid = Some (r, s')"
    and t: "r = Inr True \<longrightarrow>
         inits (effects_since valid_invalid_valid s') =
           [(ahead 1 valid_invalid_valid ! skipped 1 valid_invalid_valid, 1)] \<and>
         currentModuleIx s' =
           currentModuleIx valid_invalid_valid + 1 * (1 + int (skipped 1 valid_invalid_valid))"
    and l: "- 1 \<le> currentModuleIx valid_invalid_valid \<and>
       currentModuleIx valid_invalid_valid \<le> int (length (modules valid_invalid_valid)) \<and>
       skipped 1 valid_invalid_valid < length (ahead 1 valid_invalid_valid) \<and>
       has_init (ahead 1 valid_invalid_valid ! skipped 1 valid_invalid_valid) \<longrightarrow> r = Inr True"
    by auto
  from l k have r: "r = Inr True" by simp
  with t k have "inits (effects_since valid_invalid_valid s') =
      [(handler_of 4 (Some True) True True, 1)] \<and> currentModuleIx s' = 2"
    by simp
  with m r have B: "\<exists>s'. move 1 valid_invalid_valid = Some (Inr True, s') \<and>
       inits (effects_since valid_invalid_valid s') = [(handler_of 4 (Some True) True True, 1)] \<and>
       currentModuleIx s' = 2"
    by blast
  from h A k(1,2) B show ?thesis by blast
qed

text \<open>
  With handlers valid, invalid, valid: after focus has entered, the first MoveNext
  initialises the third handler and passes over the second; the second MoveNext leaves
  forward through the exit anchor.
\<close>

lemma enter_next_next:
  "map_option (\<lambda>s. (currentModuleIx s, inits (trace s)))
     (run_events [FocusEnter False, KeyDown MoveNext] valid_invalid_valid)
   = Some (2, [(handler_of 2 (Some True) True True, 1), (handler_of 4 (Some True) True True, 1)])"
  "map_option (\<lambda>s. (currentModuleIx s, exiting s, last (trace s)))
     (run_events [FocusEnter False, KeyDown MoveNext, KeyDown MoveNext] valid_invalid_valid)
   = Some (0, True, Focus_exitAnchor)"
  by code_simp+

text \<open>
  C3 (the code at the input where it departs from the claim). The handlers are the
  container's, a valid handler without \<open>init\<close>, and a button handler; the index is \<open>0\<close>.
  \<open>move(1)\<close> reaches the valid handler without \<open>init\<close> and falls through to the branch for
  no handler: it returns false, puts the index back to \<open>0\<close>, sets \<open>exiting\<close>, initialises
  nothing and focuses the exit anchor.
\<close>

theorem move_valid_without_init_returns_false:
  "map_option (\<lambda>(r, s'). (r, currentModuleIx s', exiting s', inits (trace s'), last (trace s')))
     (move 1 valid_without_init)
   = Some (Inr False, 0, True, [], Focus_exitAnchor)"
  by code_simp

text \<open>
  C7 (the claim as stated fails). In a loop \<open>move\<close> would be entered once. On four handlers
  of which the last three are invalid, \<open>move(1)\<close> from index \<open>0\<close> is entered four times: once
  by its caller and once by itself for each handler it passes over.
\<close>

theorem move_is_entered_once_per_skip:
  "map_option (\<lambda>(r, s'). (r, move_calls (effects_since all_invalid3 s'))) (move 1 all_invalid3)
   = Some (Inr False, 4)"
  by code_simp

text \<open>
  C7 (amended). For every list of handlers, every start index and each of the directions
  \<open>1\<close> and \<open>- 1\<close>, \<open>move\<close> returns, after it has been entered at most once more than there are
  handlers. The skip is a recursion: from a start index between \<open>- 1\<close> and the length of the
  list, \<open>move\<close> is entered once by its caller and once more for each invalid handler it
  passes over.
\<close>

theorem move_terminates_by_bounded_recursion:
  assumes "direction = 1 \<or> direction = - 1"
  shows "\<exists>r s'. move direction s = Some (r, s') \<and>
      move_calls (effects_since s s') \<le> Suc (length (modules s)) \<and>
      skipped direction s \<le> length (modules s) \<and>
      (- 1 \<le> currentModuleIx s \<and> currentModuleIx s \<le> int (length (modules s)) \<longrightarrow>
         move_calls (effects_since s s') = Suc (skipped direction s))"
proof -
  from move_returns[OF assms, of s] obtain r s' es
    where mv: "move direction s = Some (r, s')" and p: "move_post direction s r s' es"
    by blast
  from p have tr: "trace s' = trace s @ es" by (simp add: move_post_def)
  then have es: "effects_since s s' = es" by simp
  have "length (takeWhile invalid (ahead direction s)) \<le> length (ahead direction s)"
    by (rule length_takeWhile_le)
  moreover have "length (ahead direction s) \<le> length (modules s)"
    by (simp add: ahead_def)
  ultimately have k: "skipped direction s \<le> length (modules s)" by (simp add: skipped_def)
  from p have "move_calls es \<le> Suc (skipped direction s)" by (simp add: move_post_def)
  with k have b: "move_calls es \<le> Suc (length (modules s))" by simp
  have e: "- 1 \<le> currentModuleIx s \<and> currentModuleIx s \<le> int (length (modules s)) \<Longrightarrow>
      move_calls es = Suc (skipped direction s)"
    using p unfolding move_post_def by blast
  show ?thesis
    apply (rule exI[of _ r], rule exI[of _ s'])
    unfolding es using mv b k e by blast
qed

theorem move_terminates_by_bounded_recursion_witness:
  "\<exists>r s'. move 1 all_invalid3 = Some (r, s') \<and>
      move_calls (effects_since all_invalid3 s') = 4 \<and> skipped 1 all_invalid3 = 3 \<and>
      length (modules all_invalid3) = 4"
proof -
  have k: "skipped 1 all_invalid3 = 3" "length (modules all_invalid3) = 4"
    "- 1 \<le> currentModuleIx all_invalid3 \<and>
     currentModuleIx all_invalid3 \<le> int (length (modules all_invalid3))"
    by (simp_all add: all_invalid3_def kn0_def handler_of_def ahead_def invalid_def skipped_def)
  with move_terminates_by_bounded_recursion[of 1 all_invalid3] show ?thesis by auto
qed


subsection \<open>Claims about update, the pointer and destroy\<close>

lemma frame_updateContainerTabindex [simp]:
  "currentModuleIx (updateContainerTabindex opts s) = currentModuleIx s"
  "modules (updateContainerTabindex opts s) = modules s"
  "exitAnchor (updateContainerTabindex opts s) = exitAnchor s"
  "elements (updateContainerTabindex opts s) = elements s"
  "trace (updateContainerTabindex opts s) = trace s"
  by (simp_all add: updateContainerTabindex_def Let_def split: tab_container.split)

lemma frame_removeExitAnchor [simp]:
  "currentModuleIx (removeExitAnchor s) = currentModuleIx s"
  "modules (removeExitAnchor s) = modules s"
  "trace (removeExitAnchor s) = trace s"
  by (simp_all add: removeExitAnchor_def split: option.split)

lemma frame_makeElementAnExitAnchor [simp]:
  "currentModuleIx (makeElementAnExitAnchor el s) = currentModuleIx s"
  "modules (makeElementAnExitAnchor el s) = modules s"
  "trace (makeElementAnExitAnchor el s) = trace s"
  "exitAnchor (makeElementAnExitAnchor el s) = exitAnchor s"
  "parentNode (elements (makeElementAnExitAnchor el s) a) = parentNode (elements s a)"
  by (simp_all add: makeElementAnExitAnchor_def addExitAnchorEventsToEl_def setAttribute_def Let_def)

lemma frame_createExitAnchor [simp]:
  "currentModuleIx (createExitAnchor n s) = currentModuleIx s"
  "modules (createExitAnchor n s) = modules s"
  "trace (createExitAnchor n s) = trace s"
  "exitAnchor (createExitAnchor n s) = Some n"
  "parentNode (elements (createExitAnchor n s) n)"
  by (simp_all add: createExitAnchor_def Let_def)

lemma frame_updateExitAnchor [simp]:
  "currentModuleIx (updateExitAnchor endMarker n s) = currentModuleIx s"
  "modules (updateExitAnchor endMarker n s) = modules s"
  "trace (updateExitAnchor endMarker n s) = trace s"
  by (simp_all add: updateExitAnchor_def Let_def split: option.split)

text \<open>
  After \<open>updateExitAnchor\<close> the exit anchor is the element found, or else the new \<open>div\<close>. The
  new \<open>div\<close> is in the document. The element found is in the document unless it already was
  the exit anchor: then \<open>removeExitAnchor\<close> has taken it out.
\<close>

lemma exitAnchor_updateExitAnchor:
  "exitAnchor (updateExitAnchor endMarker n s) =
     Some (case endMarker of Some marker \<Rightarrow> marker | None \<Rightarrow> n)"
  "parentNode (elements (updateExitAnchor endMarker n s)
                 (case endMarker of Some marker \<Rightarrow> marker | None \<Rightarrow> n))
     = (endMarker = None \<or> exitAnchor s \<noteq> endMarker)"
  by (auto simp: updateExitAnchor_def removeExitAnchor_def Let_def split: option.split)


lemma reduce_order_eq:
  "reduce_order components order ms =
     (if list_all (\<lambda>name. components name \<noteq> None) order
      then Inr (ms @ concat (map (\<lambda>name. the (components name)) order))
      else Inl TypeError)"
  by (induction order arbitrary: ms) (auto split: option.split)



lemma onMouseUp_again: "keyboardReset s \<Longrightarrow> \<not> isClickingChart s \<Longrightarrow> onMouseUp s = s"
  by (simp add: onMouseUp_def Let_def)

text \<open>
  C8. A pointer-up while the pointer is not over the chart and \<open>keyboardReset\<close> is not set
  calls \<open>terminate()\<close> on the handler at the current index if it has one, removes the focus
  border of the chart's focus element if there is one, sets the index to \<open>0\<close> and sets
  \<open>keyboardReset\<close>; any number of further pointer-ups after it change nothing, the trace of
  calls included.
\<close>

theorem onMouseUp_resets_once:
  assumes "\<not> keyboardReset s" "\<not> pointerIsOverChart s"
  shows "onMouseUp s =
      s\<lparr>isClickingChart := False, currentModuleIx := 0, keyboardReset := True,
        trace := trace s @
          (case module_at (modules s) (currentModuleIx s) of
             Some curMod \<Rightarrow> if has_terminate curMod then [Terminate curMod None] else []
           | None \<Rightarrow> []) @
          (if focusElement s then [RemoveFocusBorder] else [])\<rparr>
    \<and> (onMouseUp ^^ n) (onMouseUp s) = onMouseUp s"
proof -
  have 1: "onMouseUp s =
      s\<lparr>isClickingChart := False, currentModuleIx := 0, keyboardReset := True,
        trace := trace s @
          (case module_at (modules s) (currentModuleIx s) of
             Some curMod \<Rightarrow> if has_terminate curMod then [Terminate curMod None] else []
           | None \<Rightarrow> []) @
          (if focusElement s then [RemoveFocusBorder] else [])\<rparr>"
    using assms by (cases s) (simp add: onMouseUp_def emit_def Let_def split: option.split)
  have "keyboardReset (onMouseUp s)" "\<not> isClickingChart (onMouseUp s)"
    by (simp_all add: 1)
  then have 2: "onMouseUp (onMouseUp s) = onMouseUp s" by (rule onMouseUp_again)
  have "(onMouseUp ^^ n) (onMouseUp s) = onMouseUp s"
    by (induction n) (simp_all add: 2)
  with 1 show ?thesis by simp
qed

theorem onMouseUp_resets_once_witness:
  "\<not> keyboardReset pointer_outside \<and> \<not> pointerIsOverChart pointer_outside \<and>
   currentModuleIx (onMouseUp pointer_outside) = 0 \<and> keyboardReset (onMouseUp pointer_outside) \<and>
   trace (onMouseUp pointer_outside) = [Terminate (handler_of 2 (Some True) True True) None, RemoveFocusBorder] \<and>
   (onMouseUp ^^ 3) (onMouseUp pointer_outside) = onMouseUp pointer_outside"
proof -
  have h: "\<not> keyboardReset pointer_outside" "\<not> pointerIsOverChart pointer_outside"
    by (simp_all add: pointer_outside_def kn0_def)
  have m: "module_at (modules pointer_outside) (currentModuleIx pointer_outside) =
      Some (handler_of 2 (Some True) True True)"
    "has_terminate (handler_of 2 (Some True) True True)" "focusElement pointer_outside"
    "trace pointer_outside = []"
    by (simp_all add: pointer_outside_def kn0_def module_at_def handler_of_def)
  note a = onMouseUp_resets_once[OF h, of 3]
  have i: "(onMouseUp ^^ 3) (onMouseUp pointer_outside) = onMouseUp pointer_outside"
    by (rule a[THEN conjunct2])
  have e: "onMouseUp pointer_outside =
      pointer_outside\<lparr>isClickingChart := False, currentModuleIx := 0, keyboardReset := True,
        trace := [Terminate (handler_of 2 (Some True) True True) None, RemoveFocusBorder]\<rparr>"
    using a[THEN conjunct1] by (simp add: m)
  have "currentModuleIx (onMouseUp pointer_outside) = 0" "keyboardReset (onMouseUp pointer_outside)"
    "trace (onMouseUp pointer_outside) =
       [Terminate (handler_of 2 (Some True) True True) None, RemoveFocusBorder]"
    by (simp_all add: e)
  with h i show ?thesis by simp
qed




subsection \<open>Claims about the key and focus listeners\<close>

lemma listeners_during_own_focus:
  "exiting s \<or> tabbingInBackwards s \<Longrightarrow> onFocus b s = (Inr (), s\<lparr>exiting := False\<rparr>)"
  "exiting s \<Longrightarrow> exitAnchor_onFocus b s = Some (Inr (), s\<lparr>exiting := False\<rparr>)"
  by (auto simp: onFocus_def exitAnchor_onFocus_def Let_def)

lemma runs_simps [simp]:
  "runs [] = []" "runs (Run m # es) = m # runs es" "runs (xs @ ys) = runs xs @ runs ys"
  "runs [PreventDefault, StopPropagation] = []"
  by (simp_all add: runs_def)

lemma runs_move_effect: "list_all move_effect es \<Longrightarrow> runs es = []"
proof (induction es)
  case Nil then show ?case by simp
next
  case (Cons e es) then show ?case by (cases e) (simp_all add: runs_def)
qed

lemma no_suppress_move_effect: "list_all move_effect es \<Longrightarrow> PreventDefault \<notin> set es"
  by (auto simp: list_all_iff)

lemma trace_suppress:
  "trace (suppress b s) = trace s @ (if b then [PreventDefault, StopPropagation] else [])"
  by (simp add: suppress_def emit_def)

lemma ix_suppress [simp]: "currentModuleIx (suppress b s) = currentModuleIx s"
  by (simp add: suppress_def emit_def)

text \<open>onKeydown for prev / next\<close>

lemma onKeydown_move:
  assumes m: "modules s \<noteq> []" "module_at (modules s) (currentModuleIx s) = Some m"
    and r: "r = MovePrev \<and> d = - 1 \<or> r = MoveNext \<and> d = 1"
  shows "\<exists>b s2 es. move d (emit (Run m) (s\<lparr>keyboardReset := False, exiting := False\<rparr>)) = Some (b, s2)
      \<and> move_post d (emit (Run m) (s\<lparr>keyboardReset := False, exiting := False\<rparr>)) b s2 es
      \<and> onKeydown r s = Some (case b of Inl e \<Rightarrow> Inl e | Inr p \<Rightarrow> Inr (), suppress (b = Inr True) s2)"
proof -
  let ?s1 = "emit (Run m) (s\<lparr>keyboardReset := False, exiting := False\<rparr>)"
  from r have d: "d = 1 \<or> d = - 1" by auto
  from move_returns[OF d, of ?s1] obtain b s2 es
    where mv: "move d ?s1 = Some (b, s2)" and p: "move_post d ?s1 b s2 es" by blast
  have "onKeydown r s = Some (case b of Inl e \<Rightarrow> Inl e | Inr p \<Rightarrow> Inr (), suppress (b = Inr True) s2)"
    using r
  proof
    assume "r = MovePrev \<and> d = - 1"
    with m mv show ?thesis
      by (cases b) (auto simp: onKeydown_def Let_def prev_def suppress_def)
  next
    assume "r = MoveNext \<and> d = 1"
    with m mv show ?thesis
      by (cases b) (auto simp: onKeydown_def Let_def next_def suppress_def)
  qed
  with mv p show ?thesis by blast
qed


lemma onKeydown_no_module:
  assumes "curNavModule s = None"
  shows "onKeydown r s = Some (Inr (), s\<lparr>keyboardReset := False, exiting := False\<rparr>)"
  using assms by (simp add: onKeydown_def curNavModule_def Let_def split: if_splits)

lemma onKeydown_stay:
  assumes "curNavModule s = Some m" "r = Success \<or> r = NoResponse \<or> r = Unrecognized n"
  shows "onKeydown r s =
     Some (Inr (), suppress (r = Success) (emit (Run m) (s\<lparr>keyboardReset := False, exiting := False\<rparr>)))"
  using assms by (auto simp: onKeydown_def curNavModule_def Let_def suppress_def split: if_splits)

text \<open>
  C4. \<open>onKeydown\<close> always returns and clears \<open>keyboardReset\<close>. Without a handler at the
  current index (an empty list or an index outside it) it calls nothing and leaves the
  index. With a handler \<open>m\<close> there it calls \<open>m.run\<close> and then: on Success it calls
  \<open>preventDefault\<close> and \<open>stopPropagation\<close> and leaves the index; on MovePrev or MoveNext it
  calls \<open>move(-1)\<close> or \<open>move(1)\<close> and calls \<open>preventDefault\<close> and \<open>stopPropagation\<close> exactly
  when \<open>move\<close> returned true (\<open>move\<close> itself never suppresses the default), raising only
  where \<open>move\<close> raises; on NoResponse and on any unrecognized code it calls nothing more,
  leaves the index and returns normally.
\<close>

theorem onKeydown_interprets_response:
  "\<exists>t u. onKeydown r s = Some (t, u) \<and> \<not> keyboardReset u \<and>
     (case curNavModule s of
        None \<Rightarrow> t = Inr () \<and> effects_since s u = [] \<and> currentModuleIx u = currentModuleIx s
      | Some m \<Rightarrow>
         (case r of
            Success \<Rightarrow>
              t = Inr () \<and> effects_since s u = [Run m, PreventDefault, StopPropagation] \<and>
              currentModuleIx u = currentModuleIx s
          | MovePrev \<Rightarrow>
              (\<exists>b s2. move (- 1) (emit (Run m) (s\<lparr>keyboardReset := False, exiting := False\<rparr>))
                         = Some (b, s2) \<and>
                 effects_since s u =
                   Run m # effects_since (emit (Run m) (s\<lparr>keyboardReset := False, exiting := False\<rparr>)) s2
                     @ (if b = Inr True then [PreventDefault, StopPropagation] else []) \<and>
                 PreventDefault \<notin> set (effects_since (emit (Run m) (s\<lparr>keyboardReset := False, exiting := False\<rparr>)) s2) \<and>
                 currentModuleIx u = currentModuleIx s2 \<and>
                 (t = Inr ()) = (b \<noteq> Inl TypeError))
          | MoveNext \<Rightarrow>
              (\<exists>b s2. move 1 (emit (Run m) (s\<lparr>keyboardReset := False, exiting := False\<rparr>))
                         = Some (b, s2) \<and>
                 effects_since s u =
                   Run m # effects_since (emit (Run m) (s\<lparr>keyboardReset := False, exiting := False\<rparr>)) s2
                     @ (if b = Inr True then [PreventDefault, StopPropagation] else []) \<and>
                 PreventDefault \<notin> set (effects_since (emit (Run m) (s\<lparr>keyboardReset := False, exiting := False\<rparr>)) s2) \<and>
                 currentModuleIx u = currentModuleIx s2 \<and>
                 (t = Inr ()) = (b \<noteq> Inl TypeError))
          | NoResponse \<Rightarrow>
              t = Inr () \<and> effects_since s u = [Run m] \<and> currentModuleIx u = currentModuleIx s
          | Unrecognized n \<Rightarrow>
              t = Inr () \<and> effects_since s u = [Run m] \<and> currentModuleIx u = currentModuleIx s))"
proof (cases "curNavModule s")
  case None
  then show ?thesis using onKeydown_no_module[OF None, of r]
    by (simp add: effects_since_def)
next
  case (Some m)
  let ?s1 = "emit (Run m) (s\<lparr>keyboardReset := False, exiting := False\<rparr>)"
  have cur: "modules s \<noteq> []" "module_at (modules s) (currentModuleIx s) = Some m"
    using Some by (auto simp: curNavModule_def split: if_splits)
  have mv: "\<exists>t u. onKeydown r s = Some (t, u) \<and> \<not> keyboardReset u \<and>
      (\<exists>b s2. move d ?s1 = Some (b, s2) \<and>
         effects_since s u = Run m # effects_since ?s1 s2
            @ (if b = Inr True then [PreventDefault, StopPropagation] else []) \<and>
         PreventDefault \<notin> set (effects_since ?s1 s2) \<and>
         currentModuleIx u = currentModuleIx s2 \<and>
         (t = Inr ()) = (b \<noteq> Inl TypeError))"
    if r: "r = MovePrev \<and> d = - 1 \<or> r = MoveNext \<and> d = 1" for d
  proof -
    from onKeydown_move[OF cur r] obtain b s2 es where
      m2: "move d ?s1 = Some (b, s2)" and p: "move_post d ?s1 b s2 es"
      and k: "onKeydown r s = Some (case b of Inl e \<Rightarrow> Inl e | Inr p \<Rightarrow> Inr (), suppress (b = Inr True) s2)"
      by blast
    from p have tr: "trace s2 = trace ?s1 @ es" and me: "list_all move_effect es"
      by (simp_all add: move_post_def)
    have es: "effects_since ?s1 s2 = es" using tr by simp
    from p have fr: "s2 = ?s1\<lparr>currentModuleIx := currentModuleIx s2, exiting := exiting s2,
        trace := trace s2\<rparr>"
      unfolding move_post_def by blast
    have kr: "\<not> keyboardReset s2" by (subst fr) (simp add: emit_def)
    have t1: "trace ?s1 = trace s @ [Run m]" by (simp add: emit_def)
    have tu: "trace (suppress (b = Inr True) s2) =
        trace s @ Run m # es @ (if b = Inr True then [PreventDefault, StopPropagation] else [])"
      by (simp add: trace_suppress tr t1)
    have e1: "effects_since s (suppress (b = Inr True) s2) =
        Run m # es @ (if b = Inr True then [PreventDefault, StopPropagation] else [])"
      using tu by (rule effects_since_append)
    have np: "PreventDefault \<notin> set es" using me by (rule no_suppress_move_effect)
    have tb: "((case b of Inl e \<Rightarrow> Inl e | Inr p \<Rightarrow> Inr ()) = (Inr () :: error + unit))
        = (b \<noteq> Inl TypeError)"
      by (cases b) (auto intro: error.exhaust)
    have ku: "\<not> keyboardReset (suppress (b = Inr True) s2)"
      using kr by (simp add: suppress_def emit_def)
    show ?thesis
      apply (rule exI[of _ "case b of Inl e \<Rightarrow> Inl e | Inr p \<Rightarrow> Inr ()"])
      apply (rule exI[of _ "suppress (b = Inr True) s2"])
      apply (intro conjI)
        apply (rule k)
       apply (rule ku)
      apply (rule exI[of _ b], rule exI[of _ s2])
      unfolding es using m2 e1 np tb by simp
  qed
  show ?thesis
  proof (cases r)
    case Success
    with onKeydown_stay[OF Some, of r] show ?thesis
      by (simp add: Some suppress_def emit_def effects_since_def)
  next
    case MovePrev
    with mv[of "- 1"] show ?thesis by (simp add: Some)
  next
    case MoveNext
    with mv[of 1] show ?thesis by (simp add: Some)
  next
    case NoResponse
    with onKeydown_stay[OF Some, of r] show ?thesis
      by (simp add: Some suppress_def emit_def effects_since_def)
  next
    case (Unrecognized n)
    with onKeydown_stay[OF Some, of r n] show ?thesis
      by (simp add: Some suppress_def emit_def effects_since_def)
  qed
qed

lemma ix_onFocus: "currentModuleIx (snd (onFocus b s)) = currentModuleIx s"
  by (simp add: onFocus_def emit_def split: option.split)

lemma onKeydown_runs_current:
  assumes c: "curNavModule s = Some m"
  shows "\<exists>t u. onKeydown r s = Some (t, u) \<and> runs (effects_since s u) = [m]"
proof -
  let ?s1 = "emit (Run m) (s\<lparr>keyboardReset := False, exiting := False\<rparr>)"
  have t1: "trace ?s1 = trace s @ [Run m]" by (simp add: emit_def)
  have cur: "modules s \<noteq> []" "module_at (modules s) (currentModuleIx s) = Some m"
    using c by (auto simp: curNavModule_def split: if_splits)
  have mv: ?thesis if r: "r = MovePrev \<and> d = - 1 \<or> r = MoveNext \<and> d = 1" for d :: int
  proof -
    from onKeydown_move[OF cur r] obtain b s2 es where
      p: "move_post d ?s1 b s2 es"
      and k: "onKeydown r s = Some (case b of Inl e \<Rightarrow> Inl e | Inr p \<Rightarrow> Inr (), suppress (b = Inr True) s2)"
      by blast
    from p have tr: "trace s2 = trace ?s1 @ es" and me: "list_all move_effect es"
      by (simp_all add: move_post_def)
    have "trace (suppress (b = Inr True) s2) =
        trace s @ Run m # es @ (if b = Inr True then [PreventDefault, StopPropagation] else [])"
      by (simp add: trace_suppress tr t1)
    then have "effects_since s (suppress (b = Inr True) s2) =
        Run m # es @ (if b = Inr True then [PreventDefault, StopPropagation] else [])"
      by (rule effects_since_append)
    then have "runs (effects_since s (suppress (b = Inr True) s2)) = [m]"
      using runs_move_effect[OF me] by simp
    with k show ?thesis by blast
  qed
  have st: ?thesis if r: "r = Success \<or> r = NoResponse \<or> r = Unrecognized n" for n
  proof -
    have "trace (suppress (r = Success) ?s1) =
        trace s @ Run m # (if r = Success then [PreventDefault, StopPropagation] else [])"
      by (simp add: trace_suppress t1)
    then have "effects_since s (suppress (r = Success) ?s1) =
        Run m # (if r = Success then [PreventDefault, StopPropagation] else [])"
      by (rule effects_since_append)
    then have "runs (effects_since s (suppress (r = Success) ?s1)) = [m]" by simp
    with onKeydown_stay[OF c r] show ?thesis by blast
  qed
  show ?thesis
    using mv[of "- 1"] mv[of 1] st by (cases r) auto
qed

text \<open>
  C10. \<open>onFocus\<close> never writes the index. When focus enters from outside (no flag set),
  handler \<open>0\<close> has \<open>init\<close> and the index is not \<open>0\<close> but names a handler \<open>mk\<close>, then
  \<open>onFocus\<close> calls \<open>init(1)\<close> on handler \<open>0\<close> and nothing else, the index stays where it was,
  and every following key event is run by \<open>mk\<close> and by no other handler.
\<close>

theorem onFocus_keeps_stale_index:
  "currentModuleIx (snd (onFocus focusComesFromChart s)) = currentModuleIx s \<and>
   (focus_entry focusComesFromChart s \<and>
    module_at (modules s) 0 = Some m0 \<and> has_init m0 \<and>
    currentModuleIx s \<noteq> 0 \<and> module_at (modules s) (currentModuleIx s) = Some mk \<longrightarrow>
      (\<exists>s'. onFocus focusComesFromChart s = (Inr (), s') \<and>
         effects_since s s' = [Init m0 1] \<and> currentModuleIx s' = currentModuleIx s \<and>
         (\<forall>r. \<exists>t u. onKeydown r s' = Some (t, u) \<and> runs (effects_since s' u) = [mk])))"
proof (intro conjI impI)
  show "currentModuleIx (snd (onFocus focusComesFromChart s)) = currentModuleIx s"
    by (rule ix_onFocus)
next
  assume h: "focus_entry focusComesFromChart s \<and>
    module_at (modules s) 0 = Some m0 \<and> has_init m0 \<and>
    currentModuleIx s \<noteq> 0 \<and> module_at (modules s) (currentModuleIx s) = Some mk"
  let ?s' = "(emit (Init m0 1) s)\<lparr>exiting := False\<rparr>"
  from h have f: "onFocus focusComesFromChart s = (Inr (), ?s')"
    by (simp add: onFocus_def focus_entry_def)
  have e: "effects_since s ?s' = [Init m0 1]" by (simp add: effects_since_def emit_def)
  have i: "currentModuleIx ?s' = currentModuleIx s" by (simp add: emit_def)
  from h have "modules s \<noteq> []" by (auto simp: module_at_def)
  with h have "curNavModule ?s' = Some mk" by (simp add: curNavModule_def emit_def)
  then have "\<forall>r. \<exists>t u. onKeydown r ?s' = Some (t, u) \<and> runs (effects_since ?s' u) = [mk]"
    using onKeydown_runs_current by blast
  with f e i show "\<exists>s'. onFocus focusComesFromChart s = (Inr (), s') \<and>
         effects_since s s' = [Init m0 1] \<and> currentModuleIx s' = currentModuleIx s \<and>
         (\<forall>r. \<exists>t u. onKeydown r s' = Some (t, u) \<and> runs (effects_since s' u) = [mk])"
    by blast
qed

theorem onFocus_keeps_stale_index_witness:
  "focus_entry False stale_index \<and> currentModuleIx stale_index = 2 \<and>
   (\<exists>s'. onFocus False stale_index = (Inr (), s') \<and>
      effects_since stale_index s' = [Init containerHandler 1] \<and> currentModuleIx s' = 2 \<and>
      (\<exists>t u. onKeydown Success s' = Some (t, u) \<and>
         runs (effects_since s' u) = [simpleButtonNavigation 2 True]))"
proof -
  have h: "focus_entry False stale_index" "module_at (modules stale_index) 0 = Some containerHandler"
    "has_init containerHandler" "currentModuleIx stale_index = 2"
    "module_at (modules stale_index) (currentModuleIx stale_index) = Some (simpleButtonNavigation 2 True)"
    by (simp_all add: focus_entry_def stale_index_def kn0_def module_at_def containerHandler_def)
  from onFocus_keeps_stale_index[of False stale_index containerHandler "simpleButtonNavigation 2 True"] h
  show ?thesis by (simp, blast)
qed


subsection \<open>Claims about the exit anchor\<close>

lemma module_at_last:
  "ms \<noteq> [] \<Longrightarrow> module_at ms (int (length ms) - 1) = Some (last ms)"
  by (simp add: module_at_def last_conv_nth nat_diff_distrib')

lemma rev_nonempty: "ms \<noteq> [] \<Longrightarrow> rev ms = last ms # rev (butlast ms)"
  by (metis append_butlast_last_id rev.simps(2) rev_rev_ident rev_singleton_conv rev_append append_Cons append_Nil)

text \<open>
  C6 (the code at inputs where it departs from the claim). Focus arrives on the exit
  anchor from outside the chart, not during an exit, and the last valid handler has no
  \<open>init\<close>. When an invalid handler comes after it, the listener calls \<open>prev()\<close>, and
  \<open>move(-1)\<close> reaches the valid handler, finds no \<open>init\<close> and falls through to its branch
  for no handler: nothing is initialised, the index is \<open>0\<close> and \<open>exiting\<close> is set, so the
  valid handler before it is not reached either. When it is the last handler, the
  listener calls its missing \<open>init\<close> and raises, with the index at that handler.
\<close>

theorem exitAnchor_onFocus_without_init:
  "map_option (\<lambda>(r, s'). (r, currentModuleIx s', exiting s', inits (trace s')))
     (exitAnchor_onFocus False reenter_without_init)
   = Some (Inr (), 0, True, []) \<and>
   map_option (\<lambda>(r, s'). (r, currentModuleIx s', exiting s', inits (trace s')))
     (exitAnchor_onFocus False reenter_last_without_init)
   = Some (Inl TypeError, 1, False, [])"
  by code_simp

text \<open>
  Where the last valid handler has \<open>init\<close>, the listener does resume there. The list of
  handlers is not empty, focus arrives on the exit anchor from outside the chart and not
  during an exit, a valid handler exists and the last valid one has \<open>init\<close>. Then the
  listener first focuses the container that carries the tabindex and prevents the
  default, then calls \<open>init(-1)\<close> on the last valid handler and on no other, and leaves the
  index at that handler: the last index of the list less the number of invalid handlers
  at its end. The example after it is a forward exit followed by a backward re-entry, which
  resumes at the last valid handler, not at handler \<open>0\<close>.
\<close>

lemma exitAnchor_onFocus_resumes_at_last_valid:
  assumes ne: "modules s \<noteq> []"
    and cb: "\<not> focusComesFromChart" "\<not> exiting s"
    and k: "trailing_invalid (modules s) < length (modules s)"
    and i: "has_init (rev (modules s) ! trailing_invalid (modules s))"
  shows "\<exists>s' es. exitAnchor_onFocus focusComesFromChart s = Some (Inr (), s') \<and>
      effects_since s s' = Focus_tabindexContainer # PreventDefault # es \<and>
      inits es = [(rev (modules s) ! trailing_invalid (modules s), - 1)] \<and>
      \<not> invalid (rev (modules s) ! trailing_invalid (modules s)) \<and>
      currentModuleIx s' = int (length (modules s)) - 1 - int (trailing_invalid (modules s)) \<and>
      module_at (modules s') (currentModuleIx s') = Some (rev (modules s) ! trailing_invalid (modules s)) \<and>
      \<not> tabbingInBackwards s' \<and> \<not> exiting s'"
proof -
  let ?ms = "modules s"
  let ?k = "trailing_invalid ?ms"
  let ?s4 = "emit PreventDefault ((emit Focus_tabindexContainer (s\<lparr>tabbingInBackwards := True\<rparr>))
               \<lparr>tabbingInBackwards := False\<rparr>)"
  let ?s5 = "?s4\<lparr>currentModuleIx := int (length ?ms) - 1\<rparr>"
  have ms5: "modules ?s5 = ?ms" and ix5: "currentModuleIx ?s5 = int (length ?ms) - 1"
    and tr5: "trace ?s5 = trace s @ [Focus_tabindexContainer, PreventDefault]"
    and ex5: "\<not> exiting ?s5" and tb5: "\<not> tabbingInBackwards ?s5"
    using cb by (simp_all add: emit_def)
  have at: "module_at (modules ?s5) (currentModuleIx ?s5) = Some (last ?ms)"
    using ne by (simp add: emit_def module_at_last)
  have rv: "rev ?ms = last ?ms # rev (butlast ?ms)" using ne by (rule rev_nonempty)
  have unfold: "exitAnchor_onFocus focusComesFromChart s =
      (if invalid (last ?ms)
       then (case prev ?s5 of None \<Rightarrow> None
             | Some (Inl e, s6) \<Rightarrow> Some (Inl e, s6)
             | Some (Inr b, s6) \<Rightarrow> Some (Inr (), s6))
       else if has_init (last ?ms) then Some (Inr (), emit (Init (last ?ms) (- 1)) ?s5)
       else Some (Inl TypeError, ?s5))"
    using cb ne at by (simp add: exitAnchor_onFocus_def Let_def invalid_def emit_def)
  show ?thesis
  proof (cases "invalid (last ?ms)")
    case False
    then have k0: "?k = 0" by (simp add: trailing_invalid_def rv)
    have m0: "rev ?ms ! 0 = last ?ms" by (subst rv) simp
    then have m: "rev ?ms ! ?k = last ?ms" by (simp only: k0)
    let ?s' = "emit (Init (last ?ms) (- 1)) ?s5"
    have r: "exitAnchor_onFocus focusComesFromChart s = Some (Inr (), ?s')"
      using unfold False i m by simp
    have e: "effects_since s ?s' = Focus_tabindexContainer # PreventDefault # [Init (last ?ms) (- 1)]"
      by (simp add: effects_since_def emit_def)
    have rest: "currentModuleIx ?s' = int (length ?ms) - 1 - int ?k"
      "module_at (modules ?s') (currentModuleIx ?s') = Some (rev ?ms ! ?k)"
      "\<not> tabbingInBackwards ?s'" "\<not> exiting ?s'"
      using cb ne by (simp_all add: k0 m0 emit_def module_at_last)
    show ?thesis
      apply (rule exI[of _ ?s'], rule exI[of _ "[Init (last ?ms) (- 1)]"])
      using r e rest False by (simp add: m)
  next
    case True
    then have tw: "takeWhile invalid (rev ?ms) = last ?ms # takeWhile invalid (rev (butlast ?ms))"
      by (simp add: rv)
    have ah: "ahead (- 1) ?s5 = rev (butlast ?ms)"
      by (simp add: ahead_def emit_def butlast_conv_take nat_diff_distrib')
    have sk: "?k = Suc (skipped (- 1) ?s5)"
      by (simp add: trailing_invalid_def skipped_def ah tw)
    have nth: "rev ?ms ! ?k = ahead (- 1) ?s5 ! skipped (- 1) ?s5"
      by (simp add: sk ah) (simp add: rv)
    from move_returns[of "- 1" ?s5] obtain b s6 es
      where mv: "move (- 1) ?s5 = Some (b, s6)" and p: "move_post (- 1) ?s5 b s6 es" by auto
    have rng: "- 1 \<le> currentModuleIx ?s5 \<and> currentModuleIx ?s5 \<le> int (length (modules ?s5))"
      by (simp add: emit_def)
    have lt: "skipped (- 1) ?s5 < length (ahead (- 1) ?s5)"
      using k sk by (simp add: ah)
    have hi: "has_init (ahead (- 1) ?s5 ! skipped (- 1) ?s5)" using i nth by simp
    from p rng lt hi have b: "b = Inr True" unfolding move_post_def by blast
    from p b have q: "\<not> invalid (ahead (- 1) ?s5 ! skipped (- 1) ?s5)"
      "inits es = [(ahead (- 1) ?s5 ! skipped (- 1) ?s5, - 1)]"
      "currentModuleIx s6 = currentModuleIx ?s5 + - 1 * (1 + int (skipped (- 1) ?s5))"
      "module_at (modules ?s5) (currentModuleIx s6) = Some (ahead (- 1) ?s5 ! skipped (- 1) ?s5)"
      "exiting s6 = exiting ?s5" "trace s6 = trace ?s5 @ es" "modules s6 = modules ?s5"
      "s6 = ?s5\<lparr>currentModuleIx := currentModuleIx s6, exiting := exiting s6, trace := trace s6\<rparr>"
      unfolding move_post_def by blast+
    have r: "exitAnchor_onFocus focusComesFromChart s = Some (Inr (), s6)"
      using unfold True mv b by (simp add: prev_def)
    have e: "effects_since s s6 = Focus_tabindexContainer # PreventDefault # es"
      using q(6) tr5 by (simp add: effects_since_def)
    have tb: "\<not> tabbingInBackwards s6" by (subst q(8)) (simp add: emit_def)
    have ix: "currentModuleIx s6 = int (length ?ms) - 1 - int ?k"
      using q(3) by (simp add: sk emit_def)
    have at6: "module_at (modules s6) (currentModuleIx s6) = Some (rev ?ms ! ?k)"
      using q(4) q(7) nth by simp
    have ex: "\<not> exiting s6" using q(5) ex5 by simp
    show ?thesis
      apply (rule exI[of _ s6], rule exI[of _ es])
      using r e q(1,2) ix at6 tb ex nth by simp
  qed
qed

lemma round_trip_mid_facts:
  "modules round_trip_mid =
     [containerHandler, simpleButtonNavigation 2 True, simpleButtonNavigation 3 False]"
  "exiting round_trip_mid = False" "currentModuleIx round_trip_mid = 0"
  "trace round_trip_mid = [Call_move 1, Call_move 1, Focus_exitAnchor]"
  by code_simp+

lemma exitAnchor_onFocus_resumes_at_last_valid_example:
  "currentModuleIx round_trip_mid = 0 \<and> \<not> exiting round_trip_mid \<and>
   trailing_invalid (modules round_trip_mid) = 1 \<and>
   (\<exists>s' es. exitAnchor_onFocus False round_trip_mid = Some (Inr (), s') \<and>
      inits es = [(simpleButtonNavigation 2 True, - 1)] \<and>
      effects_since round_trip_mid s' = Focus_tabindexContainer # PreventDefault # es \<and>
      currentModuleIx s' = 1)"
proof -
  let ?ms = "modules round_trip_mid"
  have k: "trailing_invalid ?ms = 1"
    by (simp add: round_trip_mid_facts trailing_invalid_def invalid_def simpleButtonNavigation_def)
  have m: "rev ?ms ! trailing_invalid ?ms = simpleButtonNavigation 2 True"
    by (simp add: k) (simp add: round_trip_mid_facts)
  have h: "?ms \<noteq> []" "\<not> False" "\<not> exiting round_trip_mid"
    "trailing_invalid ?ms < length ?ms" "has_init (rev ?ms ! trailing_invalid ?ms)"
    using k by (simp_all add: m) (simp_all add: round_trip_mid_facts simpleButtonNavigation_def)
  from exitAnchor_onFocus_resumes_at_last_valid[OF h] obtain s' es where
    "exitAnchor_onFocus False round_trip_mid = Some (Inr (), s')"
    "effects_since round_trip_mid s' = Focus_tabindexContainer # PreventDefault # es"
    "inits es = [(rev ?ms ! trailing_invalid ?ms, - 1)]"
    "currentModuleIx s' = int (length ?ms) - 1 - int (trailing_invalid ?ms)"
    by blast
  then have "exitAnchor_onFocus False round_trip_mid = Some (Inr (), s') \<and>
      inits es = [(simpleButtonNavigation 2 True, - 1)] \<and>
      effects_since round_trip_mid s' = Focus_tabindexContainer # PreventDefault # es \<and>
      currentModuleIx s' = 1"
    using k by (simp add: m) (simp add: round_trip_mid_facts)
  then show ?thesis using k h(3) round_trip_mid_facts(3) by blast
qed


subsection \<open>Claims about the active handler\<close>

text \<open>
  C5 (the code at the input where it departs from the claim). Every handler of the chart
  has \<open>terminate\<close>. The chart is built, focus enters from outside and the first key is
  answered with MoveNext: the third handler is the only active one and the index is \<open>2\<close>.
  Then focus arrives on the container from outside once more, with no flag set.
  \<open>onFocus\<close> calls \<open>init(1)\<close> on handler \<open>0\<close>; it neither terminates the handler at the index
  nor sets the index, as the listener of the exit anchor does before it calls \<open>init\<close>. Two
  handlers are active, and the keys go on to the handler at index \<open>2\<close>.
\<close>

theorem onFocus_at_stale_index_two_active:
  "map_option (\<lambda>s. (currentModuleIx s, inits (trace s), card (active (trace s))))
     (run_events (butlast enter_twice) constructed)
   = Some (2, [(handler_of 2 (Some True) True True, 1), (handler_of 4 None True True, 1)], 1) \<and>
   map_option (\<lambda>s. (currentModuleIx s, inits (trace s), card (active (trace s))))
     (run_events enter_twice constructed)
   = Some (2, [(handler_of 2 (Some True) True True, 1), (handler_of 4 None True True, 1),
               (handler_of 2 (Some True) True True, 1)], 2)"
  by code_simp

lemma active_append: "active (tr @ es) = foldl active_after (active tr) es"
  by (simp add: active_def)

lemma module_at_in_set: "module_at ms i = Some m \<Longrightarrow> m \<in> set ms"
  by (auto simp: module_at_def split: if_splits)

lemma active_terminate_current:
  assumes t: "list_all has_terminate (modules s)"
    and a: "active (trace s) \<subseteq> set_option (curModule s)"
  shows "foldl active_after (active (trace s))
           (case curModule s of
              Some m \<Rightarrow> if has_terminate m then [Terminate m d] else []
            | None \<Rightarrow> []) = {}"
proof (cases "curModule s")
  case None
  with a show ?thesis by simp
next
  case (Some m)
  then have "m \<in> set (modules s)" unfolding curModule_def by (rule module_at_in_set)
  with t have "has_terminate m" by (simp add: list_all_iff)
  with Some a show ?thesis by auto
qed

lemma active_advance:
  assumes t: "list_all has_terminate (modules s)"
    and a: "active (trace s) \<subseteq> set_option (curModule s)"
  shows "active (trace (move_advance d s)) = {}"
proof -
  have "active (trace (move_advance d s)) =
      foldl active_after
        (foldl active_after (active (trace s))
           (case curModule s of
              Some m \<Rightarrow> if has_terminate m then [Terminate m (Some d)] else []
            | None \<Rightarrow> []))
        (if focusElement s then [RemoveFocusBorder] else [])"
    by (simp add: trace_move_advance advance_effects_def active_append curModule_def)
  then show ?thesis using active_terminate_current[OF t a] by simp
qed

lemma active_no_module:
  assumes "move_no_module d a = (r, s')" "active (trace a) = {}"
  shows "active (trace s') = {}"
proof -
  from assms(1) have "s' = snd (move_no_module d a)" by simp
  then show ?thesis using assms(2)
    by (simp add: move_no_module_result active_append)
qed

lemma move_one_active:
  assumes d: "d = 1 \<or> d = - 1"
  shows "list_all has_terminate (modules s) \<longrightarrow> active (trace s) \<subseteq> set_option (curModule s) \<longrightarrow>
     (\<forall>r s'. move d s = Some (r, s') \<longrightarrow> active (trace s') \<subseteq> set_option (curModule s'))"
  using d
proof (induction s rule: move_induct)
  case (step s)
  show ?case
  proof (intro impI allI)
    fix r s'
    assume t: "list_all has_terminate (modules s)"
      and a: "active (trace s) \<subseteq> set_option (curModule s)"
      and mv: "move d s = Some (r, s')"
    have e: "active (trace (move_advance d s)) = {}" using active_advance[OF t a] .
    show "active (trace s') \<subseteq> set_option (curModule s')"
    proof (cases rule: move_step_cases[of s d])
      case none
      with mv have "move_no_module d (move_advance d s) = (r, s')" by simp
      then show ?thesis using active_no_module e by simp
    next
      case (skip m)
      have "list_all has_terminate (modules (move_advance d s))" using t by simp
      moreover have "active (trace (move_advance d s)) \<subseteq> set_option (curModule (move_advance d s))"
        using e by simp
      moreover have "move d (move_advance d s) = Some (r, s')" using mv skip(3) by simp
      ultimately show ?thesis using step.IH[OF skip(1,2)] by blast
    next
      case (land m)
      with mv have s': "s' = emit (Init m d) (move_advance d s)" by simp
      have "active (trace s') = {m}" by (simp add: s' emit_def active_append e)
      moreover have "curModule s' = Some m" using land(1) by (simp add: s' emit_def curModule_def)
      ultimately show ?thesis by simp
    next
      case (noinit m)
      with mv have "move_no_module d (move_advance d s) = (r, s')" by simp
      then show ?thesis using active_no_module e by simp
    qed
  qed
qed

lemma modules_move:
  assumes "d = 1 \<or> d = - 1" "move d s = Some (r, s')"
  shows "modules s' = modules s"
  using move_returns[OF assms(1), of s] assms(2) by (auto simp: move_post_def)

lemma move_keeps_one_active:
  assumes d: "d = 1 \<or> d = - 1" and o: "one_active s"
  shows "\<exists>r s'. move d s = Some (r, s') \<and> one_active s'"
proof -
  from move_returns[OF d, of s] obtain r s' es where mv: "move d s = Some (r, s')" by blast
  have "modules s' = modules s" using modules_move[OF d mv] .
  moreover have "active (trace s') \<subseteq> set_option (curModule s')"
    using move_one_active[OF d, of s] o mv by (simp add: one_active_def)
  ultimately have "one_active s'" using o by (simp add: one_active_def)
  with mv show ?thesis by blast
qed


lemma one_active_frame:
  assumes "one_active s" "modules s' = modules s" "currentModuleIx s' = currentModuleIx s"
    "active (trace s') = active (trace s)"
  shows "one_active s'"
  using assms by (simp add: one_active_def curModule_def)

lemma one_active_suppress: "one_active s \<Longrightarrow> one_active (suppress b s)"
proof (rule one_active_frame)
  show "modules (suppress b s) = modules s" by (simp add: suppress_def emit_def)
  show "currentModuleIx (suppress b s) = currentModuleIx s" by simp
  show "active (trace (suppress b s)) = active (trace s)"
    by (simp add: trace_suppress active_append)
qed

lemma onFocus_keeps_one_active:
  assumes o: "one_active s" and a: "currentModuleIx s = 0 \<or> \<not> focus_entry b s"
  shows "one_active (snd (onFocus b s))"
proof (cases "focus_entry b s \<and> module_at (modules s) 0 \<noteq> None")
  case False
  then have "snd (onFocus b s) = s\<lparr>exiting := False\<rparr>"
    by (auto simp: onFocus_def focus_entry_def)
  then show ?thesis using one_active_frame[OF o] by simp
next
  case True
  then obtain m where m: "module_at (modules s) 0 = Some m" by auto
  from True a have ix: "currentModuleIx s = 0" by blast
  show ?thesis
  proof (cases "has_init m")
    case False
    with True m have "snd (onFocus b s) = s" by (simp add: onFocus_def focus_entry_def)
    with o show ?thesis by simp
  next
    case h: True
    with True m have s': "snd (onFocus b s) = (emit (Init m 1) s)\<lparr>exiting := False\<rparr>"
      by (simp add: onFocus_def focus_entry_def)
    have "curModule s = Some m" using m ix by (simp add: curModule_def)
    with o have "active (trace s) \<subseteq> {m}" by (simp add: one_active_def)
    then have "active (trace (snd (onFocus b s))) \<subseteq> {m}"
      by (simp add: s' emit_def active_append)
    moreover have "curModule (snd (onFocus b s)) = Some m"
      using m ix by (simp add: s' emit_def curModule_def)
    moreover have "modules (snd (onFocus b s)) = modules s" by (simp add: s' emit_def)
    ultimately show ?thesis using o by (simp add: one_active_def)
  qed
qed

lemma onMouseUp_keeps_one_active:
  assumes o: "one_active s"
  shows "one_active (onMouseUp s)"
proof (cases "\<not> keyboardReset s \<and> \<not> pointerIsOverChart s")
  case False
  then have "onMouseUp s = s\<lparr>isClickingChart := False\<rparr>"
    by (auto simp: onMouseUp_def Let_def)
  then show ?thesis using one_active_frame[OF o] by simp
next
  case True
  from o have t: "list_all has_terminate (modules s)"
    and a: "active (trace s) \<subseteq> set_option (curModule s)" by (simp_all add: one_active_def)
  have tr: "trace (onMouseUp s) = trace s @
      (case curModule s of
         Some m \<Rightarrow> if has_terminate m then [Terminate m None] else []
       | None \<Rightarrow> []) @ (if focusElement s then [RemoveFocusBorder] else [])"
    using True by (simp add: onMouseUp_def Let_def emit_def curModule_def split: option.split)
  have "active (trace (onMouseUp s)) = {}"
    using active_terminate_current[OF t a, of None] by (simp add: tr active_append)
  moreover have "modules (onMouseUp s) = modules s"
    using True by (simp add: onMouseUp_def Let_def emit_def split: option.split)
  ultimately show ?thesis using t by (simp add: one_active_def)
qed

lemma onKeydown_keeps_one_active:
  assumes o: "one_active s"
  shows "\<exists>t u. onKeydown r s = Some (t, u) \<and> one_active u"
proof (cases "curNavModule s")
  case None
  have "one_active (s\<lparr>keyboardReset := False, exiting := False\<rparr>)"
    using one_active_frame[OF o] by simp
  with onKeydown_no_module[OF None, of r] show ?thesis by simp
next
  case (Some m)
  let ?s1 = "emit (Run m) (s\<lparr>keyboardReset := False, exiting := False\<rparr>)"
  have o1: "one_active ?s1"
    using one_active_frame[OF o, of ?s1] by (simp add: emit_def active_append)
  have cur: "modules s \<noteq> []" "module_at (modules s) (currentModuleIx s) = Some m"
    using Some by (auto simp: curNavModule_def split: if_splits)
  have mv: ?thesis if r: "r = MovePrev \<and> d = - 1 \<or> r = MoveNext \<and> d = 1" for d :: int
  proof -
    from r have d: "d = 1 \<or> d = - 1" by auto
    from onKeydown_move[OF cur r] obtain b s2 where
      m2: "move d ?s1 = Some (b, s2)"
      and k: "onKeydown r s = Some (case b of Inl e \<Rightarrow> Inl e | Inr p \<Rightarrow> Inr (), suppress (b = Inr True) s2)"
      by blast
    from move_keeps_one_active[OF d o1] m2 have "one_active s2" by simp
    then have "one_active (suppress (b = Inr True) s2)" by (rule one_active_suppress)
    with k show ?thesis by blast
  qed
  have st: ?thesis if r: "r = Success \<or> r = NoResponse \<or> r = Unrecognized n" for n
    using onKeydown_stay[OF Some r] one_active_suppress[OF o1] by blast
  show ?thesis using mv[of "- 1"] mv[of 1] st by (cases r) auto
qed

lemma exitAnchor_onFocus_keeps_one_active:
  assumes o: "one_active s" and a: "b \<or> exiting s \<or> active (trace s) = {}"
  shows "\<exists>t u. exitAnchor_onFocus b s = Some (t, u) \<and> one_active u"
proof (cases "b \<or> exiting s")
  case True
  then have "exitAnchor_onFocus b s = Some (Inr (), s\<lparr>exiting := False\<rparr>)"
    by (auto simp: exitAnchor_onFocus_def Let_def)
  moreover have "one_active (s\<lparr>exiting := False\<rparr>)" using one_active_frame[OF o] by simp
  ultimately show ?thesis by simp
next
  case False
  with a have e: "active (trace s) = {}" by blast
  from o have t: "list_all has_terminate (modules s)" by (simp add: one_active_def)
  let ?s4 = "emit PreventDefault ((emit Focus_tabindexContainer (s\<lparr>tabbingInBackwards := True\<rparr>))
               \<lparr>tabbingInBackwards := False\<rparr>)"
  let ?s5 = "?s4\<lparr>currentModuleIx := int (length (modules s)) - 1\<rparr>"
  have e4: "active (trace ?s4) = {}" "modules ?s4 = modules s"
    by (simp_all add: emit_def active_append e)
  have e5: "active (trace ?s5) = {}" "modules ?s5 = modules s"
    by (simp_all add: emit_def active_append e)
  have o4: "one_active ?s4" using t e4 by (simp add: one_active_def)
  have o5: "one_active ?s5" using t e5 by (simp add: one_active_def)
  show ?thesis
  proof (cases "modules s = []")
    case True
    with False have "exitAnchor_onFocus b s = Some (Inr (), ?s4)"
      by (simp add: exitAnchor_onFocus_def Let_def emit_def)
    with o4 show ?thesis by blast
  next
    case ne: False
    then have at: "module_at (modules ?s5) (currentModuleIx ?s5) = Some (last (modules s))"
      by (simp add: emit_def module_at_last)
    have unfold: "exitAnchor_onFocus b s =
      (if invalid (last (modules s))
       then (case prev ?s5 of None \<Rightarrow> None
             | Some (Inl e, s6) \<Rightarrow> Some (Inl e, s6)
             | Some (Inr b, s6) \<Rightarrow> Some (Inr (), s6))
       else if has_init (last (modules s))
       then Some (Inr (), emit (Init (last (modules s)) (- 1)) ?s5)
       else Some (Inl TypeError, ?s5))"
      using False ne at by (simp add: exitAnchor_onFocus_def Let_def invalid_def emit_def)
    show ?thesis
    proof (cases "invalid (last (modules s))")
      case True
      from move_keeps_one_active[of "- 1", OF _ o5] obtain r s6
        where mv: "move (- 1) ?s5 = Some (r, s6)" and o6: "one_active s6" by auto
      then show ?thesis using unfold True by (cases r) (auto simp: prev_def)
    next
      case v: False
      show ?thesis
      proof (cases "has_init (last (modules s))")
        case True
        let ?u = "emit (Init (last (modules s)) (- 1)) ?s5"
        have "active (trace ?u) = {last (modules s)}"
          by (simp add: emit_def active_append e)
        moreover have "curModule ?u = Some (last (modules s))"
          using at by (simp add: curModule_def emit_def)
        moreover have "modules ?u = modules s" by (simp add: emit_def)
        ultimately have "one_active ?u" using t by (simp add: one_active_def)
        with unfold v True show ?thesis by simp
      next
        case False
        with unfold v o5 show ?thesis by simp
      qed
    qed
  qed
qed

lemma trace_update [simp]: "trace (snd (update opts components endMarker n order s)) = trace s"
  by (simp add: update_def Let_def split: sum.split)

lemma fire_keeps_one_active:
  assumes o: "one_active s" and a: "admissible ev s"
  shows "\<exists>s'. fire ev s = Some s' \<and> one_active s'"
proof (cases ev)
  case (FocusEnter b)
  with a onFocus_keeps_one_active[OF o, of b] show ?thesis by simp
next
  case (KeyDown r)
  with onKeydown_keeps_one_active[OF o, of r] show ?thesis by auto
next
  case PointerUp
  with onMouseUp_keeps_one_active[OF o] show ?thesis by simp
next
  case PointerDown
  with one_active_frame[OF o, of "onMouseDown s"] show ?thesis by (simp add: onMouseDown_def)
next
  case PointerOver
  with one_active_frame[OF o, of "onMouseOver s"] show ?thesis by (simp add: onMouseOver_def)
next
  case PointerOut
  with one_active_frame[OF o, of "onMouseOut s"] show ?thesis by (simp add: onMouseOut_def)
next
  case (ExitAnchorFocus b)
  with a exitAnchor_onFocus_keeps_one_active[OF o, of b] show ?thesis by auto
next
  case (Move d)
  with a move_keeps_one_active[OF _ o, of d] show ?thesis by auto
next
  case (Rebuild opts components endMarker n order)
  with a show ?thesis by (simp add: one_active_def)
next
  case (Chart_focusElement b)
  with one_active_frame[OF o, of "s\<lparr>focusElement := b\<rparr>"] show ?thesis by simp
qed

lemma run_keeps_one_active:
  "one_active s \<Longrightarrow> admissible_run evs s \<Longrightarrow> \<exists>s'. run_events evs s = Some s' \<and> one_active s'"
proof (induction evs arbitrary: s)
  case Nil
  then show ?case by simp
next
  case (Cons ev evs)
  from Cons.prems have a: "admissible ev s" by simp
  from fire_keeps_one_active[OF Cons.prems(1) a] obtain s1
    where f: "fire ev s = Some s1" and o1: "one_active s1" by blast
  with Cons.prems have "admissible_run evs s1" by simp
  from Cons.IH[OF o1 this] f show ?case by simp
qed

lemma modules_update_no_order [simp]:
  "modules (snd (update opts components endMarker n None s)) = []"
  by (simp add: update_def Let_def)

lemma one_active_init: "one_active (init opts rt ct)"
proof -
  have "modules (init opts rt ct) = []" "trace (init opts rt ct) = []"
    by (simp_all add: init_def Let_def)
  then show ?thesis by (simp add: one_active_def active_def)
qed

lemma card_subset_option: "A \<subseteq> set_option x \<Longrightarrow> card A \<le> 1"
  by (cases x) (auto simp: subset_singleton_iff)

text \<open>
  The other listeners keep the handler at the index the only active one. From the state
  the constructor leaves, every list of admissible events runs to an end, and in the
  state it reaches at most one handler is active, namely the one at the current index.
  Admissible are: key-down, pointer and focus-element events always; \<open>move\<close> with direction
  \<open>1\<close> or \<open>- 1\<close>; focus entering from outside while the index is \<open>0\<close>; focus arriving on the
  exit anchor from outside while no handler is active; and \<open>update\<close> while no handler is
  active, if all the handlers it leaves have \<open>terminate\<close>.
\<close>

lemma at_most_one_active_when_terminated:
  assumes "admissible_run evs (init keyboardOptions renderTo_attr container_attr)"
  shows "\<exists>s. run_events evs (init keyboardOptions renderTo_attr container_attr) = Some s \<and>
      card (active (trace s)) \<le> 1 \<and> active (trace s) \<subseteq> set_option (curModule s)"
proof -
  from run_keeps_one_active[OF one_active_init assms] obtain s
    where "run_events evs (init keyboardOptions renderTo_attr container_attr) = Some s"
      "one_active s" by blast
  then show ?thesis using card_subset_option by (auto simp: one_active_def)
qed

lemma navigate_admissible: "admissible_run navigate (init (Some (Some True)) None None)"
  by code_simp

lemma navigate_result:
  "map_option (\<lambda>s. (currentModuleIx s, card (active (trace s))))
     (run_events navigate (init (Some (Some True)) None None)) = Some (2, 1)"
  by code_simp

lemma at_most_one_active_when_terminated_example:
  "admissible_run navigate (init (Some (Some True)) None None) \<and>
   (\<exists>s. run_events navigate (init (Some (Some True)) None None) = Some s \<and>
      currentModuleIx s = 2 \<and> card (active (trace s)) = 1 \<and>
      active (trace s) \<subseteq> set_option (curModule s))"
proof -
  from at_most_one_active_when_terminated[OF navigate_admissible] obtain s where
    "run_events navigate (init (Some (Some True)) None None) = Some s"
    "active (trace s) \<subseteq> set_option (curModule s)" by blast
  with navigate_result navigate_admissible show ?thesis by auto
qed

subsection \<open>The exit anchor exists where the class calls move\<close>

lemma anchored_frame:
  "anchored s \<Longrightarrow> modules s' = modules s \<Longrightarrow> exitAnchor s' = exitAnchor s \<Longrightarrow> anchored s'"
  by (simp add: anchored_def)

lemma move_frame:
  assumes "d = 1 \<or> d = - 1" "move d s = Some (r, s')"
  shows "modules s' = modules s \<and> exitAnchor s' = exitAnchor s"
proof -
  from move_returns[OF assms(1), of s] assms(2) obtain es where "move_post d s r s' es" by auto
  then have "s' = s\<lparr>currentModuleIx := currentModuleIx s', exiting := exiting s', trace := trace s'\<rparr>"
    unfolding move_post_def by blast
  then have "modules s' = modules (s\<lparr>currentModuleIx := currentModuleIx s', exiting := exiting s', trace := trace s'\<rparr>)"
    "exitAnchor s' = exitAnchor (s\<lparr>currentModuleIx := currentModuleIx s', exiting := exiting s', trace := trace s'\<rparr>)"
    by simp_all
  then show ?thesis by simp
qed

lemma frame_suppress [simp]:
  "modules (suppress b s) = modules s" "exitAnchor (suppress b s) = exitAnchor s"
  by (simp_all add: suppress_def emit_def)

lemma onKeydown_frame:
  assumes "onKeydown r s = Some (t, u)"
  shows "modules u = modules s \<and> exitAnchor u = exitAnchor s"
proof (cases "curNavModule s")
  case None
  with onKeydown_no_module[OF None, of r] assms show ?thesis by simp
next
  case (Some m)
  let ?s1 = "emit (Run m) (s\<lparr>keyboardReset := False, exiting := False\<rparr>)"
  have cur: "modules s \<noteq> []" "module_at (modules s) (currentModuleIx s) = Some m"
    using Some by (auto simp: curNavModule_def split: if_splits)
  have mv: ?thesis if r: "r = MovePrev \<and> d = - 1 \<or> r = MoveNext \<and> d = 1" for d :: int
  proof -
    from r have d: "d = 1 \<or> d = - 1" by auto
    from onKeydown_move[OF cur r] obtain b s2 where
      m2: "move d ?s1 = Some (b, s2)"
      and k: "onKeydown r s = Some (case b of Inl e \<Rightarrow> Inl e | Inr p \<Rightarrow> Inr (), suppress (b = Inr True) s2)"
      by blast
    from move_frame[OF d m2] have "modules s2 = modules s \<and> exitAnchor s2 = exitAnchor s"
      by (simp add: emit_def)
    with k assms show ?thesis by auto
  qed
  have st: ?thesis if r: "r = Success \<or> r = NoResponse \<or> r = Unrecognized n" for n
    using onKeydown_stay[OF Some r] assms by (auto simp: emit_def)
  show ?thesis using mv[of "- 1"] mv[of 1] st by (cases r) auto
qed

lemma exitAnchor_onFocus_frame:
  assumes "exitAnchor_onFocus b s = Some (t, u)"
  shows "modules u = modules s \<and> exitAnchor u = exitAnchor s"
proof -
  let ?s5 = "(emit PreventDefault ((emit Focus_tabindexContainer (s\<lparr>tabbingInBackwards := True\<rparr>))
               \<lparr>tabbingInBackwards := False\<rparr>))\<lparr>currentModuleIx := int (length (modules s)) - 1\<rparr>"
  have p: "modules u = modules s \<and> exitAnchor u = exitAnchor s"
    if "prev ?s5 = Some (r, u)" for r
    using move_frame[of "- 1" ?s5 r u] that by (simp add: prev_def emit_def)
  show ?thesis
    using assms p
    by (auto simp: exitAnchor_onFocus_def Let_def emit_def
          split: if_splits option.splits prod.splits sum.splits)
qed

lemma fire_keeps_anchored:
  assumes a: "anchored s" and u: "unit_move ev" and f: "fire ev s = Some s'"
  shows "anchored s'"
proof (cases ev)
  case (FocusEnter b)
  with f have "s' = snd (onFocus b s)" by simp
  then show ?thesis using a
    by (auto simp: anchored_def onFocus_def emit_def split: if_splits option.splits)
next
  case (KeyDown r)
  with f obtain t where "onKeydown r s = Some (t, s')" by auto
  from onKeydown_frame[OF this] a show ?thesis by (simp add: anchored_def)
next
  case PointerUp
  with f a show ?thesis
    by (auto simp: anchored_def onMouseUp_def Let_def emit_def split: option.splits)
next
  case PointerDown
  with f a show ?thesis by (auto simp: anchored_def onMouseDown_def)
next
  case PointerOver
  with f a show ?thesis by (auto simp: anchored_def onMouseOver_def)
next
  case PointerOut
  with f a show ?thesis by (auto simp: anchored_def onMouseOut_def)
next
  case (ExitAnchorFocus b)
  with f obtain t where "exitAnchor_onFocus b s = Some (t, s')" by auto
  from exitAnchor_onFocus_frame[OF this] a show ?thesis by (simp add: anchored_def)
next
  case (Move d)
  with f u obtain r where "move d s = Some (r, s')" "d = 1 \<or> d = - 1" by auto
  from move_frame[OF this(2,1)] a show ?thesis by (simp add: anchored_def)
next
  case (Rebuild opts components endMarker n order)
  with f have s': "s' = snd (update opts components endMarker n order s)" by simp
  show ?thesis
  proof (cases "opts = Some (Some True) \<and> order \<noteq> None \<and> order \<noteq> Some []")
    case True
    then show ?thesis using a
      by (auto simp: s' anchored_def update_def Let_def reduce_order_eq exitAnchor_updateExitAnchor)
  next
    case False
    then have "update opts components endMarker n order s =
      (Inr (), removeExitAnchor
         ((updateContainerTabindex opts s)\<lparr>modules := [], currentModuleIx := 0\<rparr>))"
      by (simp only: update_def Let_def if_False)
    then show ?thesis by (simp add: s' anchored_def)
  qed
next
  case (Chart_focusElement b)
  with f a show ?thesis by (auto simp: anchored_def)
qed

lemma run_keeps_anchored:
  "anchored s \<Longrightarrow> list_all unit_move evs \<Longrightarrow> run_events evs s = Some s' \<Longrightarrow> anchored s'"
proof (induction evs arbitrary: s)
  case Nil
  then show ?case by simp
next
  case (Cons ev evs)
  from Cons.prems(3) obtain s1 where f: "fire ev s = Some s1" and r: "run_events evs s1 = Some s'"
    by (auto split: option.splits)
  from fire_keeps_anchored[OF Cons.prems(1) _ f] Cons.prems(2) have "anchored s1" by simp
  from Cons.IH[OF this _ r] Cons.prems(2) show ?case by simp
qed

text \<open>
  From the state the constructor leaves, whatever the events, an instance that has a
  handler has an exit anchor: \<open>update\<close> sets one whenever it sets handlers, and of the
  events only \<open>update\<close> without navigation removes it, together with the handlers. So where
  a listener of the class calls \<open>move\<close>, the exit anchor exists.
\<close>

lemma exitAnchor_exists_with_handlers:
  assumes "list_all unit_move evs"
    and "run_events evs (init keyboardOptions renderTo_attr container_attr) = Some s"
    and "modules s \<noteq> []"
  shows "exitAnchor s \<noteq> None"
proof -
  have "modules (init keyboardOptions renderTo_attr container_attr) = []"
    by (simp add: init_def Let_def)
  then have "anchored (init keyboardOptions renderTo_attr container_attr)"
    by (simp add: anchored_def)
  from run_keeps_anchored[OF this assms(1,2)] assms(3) show ?thesis by (simp add: anchored_def)
qed

end
